theory Spec2Isabelle
  imports Complex_Main
begin

section \<open>The Vahan session and workflow engine (backend/vahan\_automation.py)\<close>

text \<open>
  The engine drives a browser through an approval workflow. Everything it learns from
  outside (the browser, the debugging port, the clock, the session file's readability)
  is an answer of the environment, so the model takes the environment as an argument:
  an oracle that gives, for every source line that talks to the outside and for every
  execution of that line, the reply the line receives. A world holds the oracle, the
  number of times each line has been executed, the two module globals
  (\<open>driver_instance\<close>, \<open>is_logged_in\<close>), the content of the session file and the
  document the browser's driver currently addresses (top level or the DMS frame).

  Every deterministic run of the Python code against a real browser is the run of the
  model in some oracle: take as the n-th reply of a line what the browser answered the
  n-th time that line ran.

  Not modelled: \<open>safe_print\<close> (logging only; it swallows its own exceptions) and
  \<open>time.sleep\<close> (time is read from the environment at every \<open>time.time()\<close>). The
  pictographs that start some message literals are left out of the message strings.
\<close>

subsection \<open>Exceptions, replies, worlds\<close>

datatype exn =
    TimeoutException string
  | WebDriverException string
  | PyException string

fun str_of :: "exn \<Rightarrow> string" where
  "str_of (TimeoutException m) = m"
| "str_of (WebDriverException m) = m"
| "str_of (PyException m) = m"

text \<open>selenium's \<open>TimeoutException\<close> is a subclass of \<open>WebDriverException\<close>.\<close>

fun is_timeout :: "exn \<Rightarrow> bool" where
  "is_timeout (TimeoutException m) = True"
| "is_timeout e = False"

fun is_webdriver_exception :: "exn \<Rightarrow> bool" where
  "is_webdriver_exception (PyException m) = False"
| "is_webdriver_exception e = True"

text \<open>
  What a line receives: an exception, or a value of which the line reads the part it
  needs: \<open>count\<close> (the number of elements found, or an integer result), \<open>str_val\<close>
  (a string: a URL, an attribute, an element's text), \<open>flag\<close> (a boolean) and
  \<open>stamp\<close> (the clock, in seconds).
\<close>

record reply =
  raises :: "exn option"
  count :: nat
  str_val :: string
  flag :: bool
  stamp :: real

text \<open>A driver handle; the number is the source line of the \<open>uc.Chrome\<close> call that made it.\<close>

datatype driver = Driver nat

text \<open>The JSON object of the session file; \<open>sd_timestamp\<close> is optional as the reader uses
  \<open>session_data.get('timestamp', 0)\<close>.\<close>

record session_data =
  sd_has_driver :: bool
  sd_is_logged_in :: bool
  sd_timestamp :: "real option"

record world =
  replies :: "nat \<Rightarrow> nat \<Rightarrow> reply"
  asked :: "nat \<Rightarrow> nat"
  driver_instance :: "driver option"
  is_logged_in :: bool
  session_file :: "session_data option"
  in_frame :: bool

subsection \<open>Programs: state, exceptions and early return\<close>

text \<open>
  A statement either completes (\<open>Normal\<close>), raises (\<open>Raised\<close>) or executes a
  \<open>return\<close> of the enclosing function (\<open>Returned\<close>), which no \<open>except\<close> clause
  catches.
\<close>

datatype ('a, 'r) outcome = Normal 'a | Raised exn | Returned 'r

type_synonym ('a, 'r) prog = "world \<Rightarrow> ('a, 'r) outcome \<times> world"

definition ret :: "'a \<Rightarrow> ('a, 'r) prog" where
  "ret x w = (Normal x, w)"

definition raise :: "exn \<Rightarrow> ('a, 'r) prog" where
  "raise e w = (Raised e, w)"

definition return_value :: "'r \<Rightarrow> ('a, 'r) prog" where
  "return_value r w = (Returned r, w)"

definition bind :: "('a, 'r) prog \<Rightarrow> ('a \<Rightarrow> ('b, 'r) prog) \<Rightarrow> ('b, 'r) prog" where
  "bind m f w =
     (case m w of
        (Normal x, w') \<Rightarrow> f x w'
      | (Raised e, w') \<Rightarrow> (Raised e, w')
      | (Returned r, w') \<Rightarrow> (Returned r, w'))"

definition seq :: "('a, 'r) prog \<Rightarrow> ('b, 'r) prog \<Rightarrow> ('b, 'r) prog" where
  "seq m n = bind m (\<lambda>_. n)"

fun block :: "(unit, 'r) prog list \<Rightarrow> (unit, 'r) prog" where
  "block [] = ret ()"
| "block (s # ss) = seq s (block ss)"

declare block.simps [simp del]

text \<open>\<open>try: m except Exception as e: h e\<close>. A handler that re-raises what it does not
  catch models a narrower \<open>except\<close> clause.\<close>

definition try_except :: "('a, 'r) prog \<Rightarrow> (exn \<Rightarrow> ('a, 'r) prog) \<Rightarrow> ('a, 'r) prog" where
  "try_except m h w =
     (case m w of
        (Raised e, w') \<Rightarrow> h e w'
      | (Normal x, w') \<Rightarrow> (Normal x, w')
      | (Returned r, w') \<Rightarrow> (Returned r, w'))"

text \<open>The boundary of a function whose every path returns a value: the caller sees the
  returned value as the call's value, and exceptions pass.\<close>

definition fn_body :: "('r, 'r) prog \<Rightarrow> ('r, 'q) prog" where
  "fn_body m w =
     (case m w of
        (Normal x, w') \<Rightarrow> (Normal x, w')
      | (Returned r, w') \<Rightarrow> (Normal r, w')
      | (Raised e, w') \<Rightarrow> (Raised e, w'))"

subsection \<open>Talking to the environment\<close>

definition tick :: "nat \<Rightarrow> world \<Rightarrow> world" where
  "tick L w = w\<lparr>asked := (asked w)(L := Suc (asked w L))\<rparr>"

definition answer :: "nat \<Rightarrow> world \<Rightarrow> reply" where
  "answer L w = replies w L (asked w L)"

text \<open>One execution of the outside call at source line \<open>L\<close>.\<close>

definition call :: "nat \<Rightarrow> (reply, 'r) prog" where
  "call L w =
     (case raises (answer L w) of
        Some e \<Rightarrow> (Raised e, tick L w)
      | None \<Rightarrow> (Normal (answer L w), tick L w))"

text \<open>A call whose value is not used (a click, a wait for an element, a script).\<close>

definition act :: "nat \<Rightarrow> (unit, 'r) prog" where
  "act L = bind (call L) (\<lambda>_. ret ())"

text \<open>\<open>time.time()\<close> at line \<open>L\<close>: it does not raise.\<close>

definition time_time :: "nat \<Rightarrow> (real, 'r) prog" where
  "time_time L w = (Normal (stamp (answer L w)), tick L w)"

definition set_in_frame :: "bool \<Rightarrow> (unit, 'r) prog" where
  "set_in_frame b w = (Normal (), w\<lparr>in_frame := b\<rparr>)"

text \<open>\<open>driver.switch_to.frame(iframe)\<close> and \<open>driver.switch_to.default_content()\<close>: the
  driver's context changes when the call does not raise.\<close>

definition switch_to_frame :: "nat \<Rightarrow> (unit, 'r) prog" where
  "switch_to_frame L = seq (call L) (set_in_frame True)"

definition switch_to_default_content :: "nat \<Rightarrow> (unit, 'r) prog" where
  "switch_to_default_content L = seq (call L) (set_in_frame False)"

subsection \<open>Strings\<close>

fun char_lower :: "char \<Rightarrow> char" where
  "char_lower c =
     (let n = (of_char c :: nat) in if 65 \<le> n \<and> n \<le> 90 then char_of (n + 32) else c)"

definition lower :: "string \<Rightarrow> string" where
  "lower s = map char_lower s"

fun starts_with :: "string \<Rightarrow> string \<Rightarrow> bool" where
  "starts_with [] s = True"
| "starts_with (p # ps) [] = False"
| "starts_with (p # ps) (c # cs) = (p = c \<and> starts_with ps cs)"

text \<open>\<open>sub in s\<close>.\<close>

fun contains :: "string \<Rightarrow> string \<Rightarrow> bool" where
  "contains sub [] = (sub = [])"
| "contains sub (c # cs) = (starts_with sub (c # cs) \<or> contains sub cs)"

subsection \<open>The session store\<close>

text \<open>Reading and writing the module globals and the session file.\<close>

definition get_driver_instance :: "(driver option, 'r) prog" where
  "get_driver_instance w = (Normal (driver_instance w), w)"

definition get_is_logged_in :: "(bool, 'r) prog" where
  "get_is_logged_in w = (Normal (is_logged_in w), w)"

definition set_driver_instance :: "driver option \<Rightarrow> (unit, 'r) prog" where
  "set_driver_instance d w = (Normal (), w\<lparr>driver_instance := d\<rparr>)"

definition set_is_logged_in :: "bool \<Rightarrow> (unit, 'r) prog" where
  "set_is_logged_in b w = (Normal (), w\<lparr>is_logged_in := b\<rparr>)"

definition read_session_file :: "(session_data option, 'r) prog" where
  "read_session_file w = (Normal (session_file w), w)"

definition write_session_file :: "session_data \<Rightarrow> (unit, 'r) prog" where
  "write_session_file d w = (Normal (), w\<lparr>session_file := Some d\<rparr>)"

definition remove_session_file :: "(unit, 'r) prog" where
  "remove_session_file w = (Normal (), w\<lparr>session_file := None\<rparr>)"

text \<open>
  \<open>save_session_info\<close> (lines 29-41). Line 35 reads the clock; \<open>open\<close> and
  \<open>json.dump\<close> (lines 37-38) are one outside call, at line 37, that may raise; any
  exception is swallowed.
\<close>

definition save_session_info :: "(unit, 'r) prog" where
  "save_session_info =
     try_except
       (bind get_driver_instance (\<lambda>d. bind get_is_logged_in (\<lambda>l.
          bind (time_time 35) (\<lambda>now.
            seq (call 37)
                (write_session_file
                   \<lparr>sd_has_driver = (d \<noteq> None), sd_is_logged_in = l,
                    sd_timestamp = Some now\<rparr>)))))
       (\<lambda>e. ret ())"

definition get_timestamp :: "session_data \<Rightarrow> real" where
  "get_timestamp d = (case sd_timestamp d of None \<Rightarrow> 0 | Some t \<Rightarrow> t)"

text \<open>
  \<open>load_session_info\<close> (lines 43-57): \<open>None\<close> when the file is absent, unreadable
  (line 47 raises) or not younger than 3600 seconds at the clock reading of line 51.
\<close>

definition load_session_info :: "(session_data option, 'r) prog" where
  "load_session_info =
     try_except
       (bind read_session_file (\<lambda>file.
          case file of
            None \<Rightarrow> ret None
          | Some d \<Rightarrow>
              seq (call 47) (bind (time_time 51) (\<lambda>now.
                if now - get_timestamp d < 3600 then ret (Some d) else ret None))))
       (\<lambda>e. ret None)"

text \<open>\<open>clear_session_info\<close> (lines 59-66): \<open>os.remove\<close> is the outside call of line 63.\<close>

definition clear_session_info :: "(unit, 'r) prog" where
  "clear_session_info =
     try_except
       (bind read_session_file (\<lambda>file.
          case file of
            None \<Rightarrow> ret ()
          | Some d \<Rightarrow> seq (call 63) remove_session_file))
       (\<lambda>e. ret ())"

subsection \<open>Finding, attaching to and creating the browser\<close>

text \<open>\<open>is_chrome_debugging_available\<close> (lines 78-92): \<open>connect_ex\<close> on port 9222 is the
  outside call of line 88; its integer result is the reply's \<open>count\<close>.\<close>

definition is_chrome_debugging_available :: "(bool, 'r) prog" where
  "is_chrome_debugging_available =
     try_except (bind (call 88) (\<lambda>r. ret (count r = 0))) (\<lambda>e. ret False)"

text \<open>
  \<open>try_connect_to_existing_chrome\<close> (lines 94-130): probe the port, attach with the
  \<open>debuggerAddress\<close> option (line 113), verify by reading \<open>current_url\<close> (line 117);
  when the verification fails, \<open>quit\<close> the attached driver (line 123).
\<close>

definition try_connect_to_existing_chrome :: "(driver option, 'r) prog" where
  "try_connect_to_existing_chrome =
     try_except
       (bind is_chrome_debugging_available (\<lambda>available.
          if \<not> available then ret None
          else
            bind (call 113) (\<lambda>_.
              try_except
                (bind (call 117) (\<lambda>_. ret (Some (Driver 113))))
                (\<lambda>e. seq (try_except (act 123) (\<lambda>e. ret ())) (ret None)))))
       (\<lambda>e. ret None)"

definition driver_error_msg :: string where
  "driver_error_msg =
     ''Chrome Driver Initialization Failed! This is typically caused by a version mismatch between Chrome browser and ChromeDriver.''"

text \<open>Strategy 4 of \<open>create_vahan_driver\<close>: \<open>for version in [139, 138, 137, 136]\<close>, each a
  \<open>uc.Chrome\<close> call at line 212.\<close>

fun try_versions :: "nat list \<Rightarrow> (unit, driver) prog" where
  "try_versions [] = ret ()"
| "try_versions (v # vs) =
     seq (try_except (bind (call 212) (\<lambda>_. return_value (Driver 212))) (\<lambda>e. ret ()))
         (try_versions vs)"

text \<open>
  \<open>create_vahan_driver\<close> (lines 132-226): attach to a running Chrome if there is one;
  else the creation strategies in order, each a \<open>uc.Chrome\<close> call that starts a browser
  (lines 181, 190, 202 after the download of line 198, 212); when all fail, raise.
\<close>

definition create_vahan_driver :: "(driver, 'r) prog" where
  "create_vahan_driver =
     fn_body
       (bind try_connect_to_existing_chrome (\<lambda>existing_driver.
          case existing_driver of
            Some d \<Rightarrow> return_value d
          | None \<Rightarrow>
              seq (block
                [try_except (bind (call 181) (\<lambda>_. return_value (Driver 181))) (\<lambda>e. ret ()),
                 try_except (bind (call 190) (\<lambda>_. return_value (Driver 190))) (\<lambda>e. ret ()),
                 try_except
                   (bind (call 198) (\<lambda>_. bind (call 202) (\<lambda>_. return_value (Driver 202))))
                   (\<lambda>e. ret ()),
                 try_versions [139, 138, 137, 136]])
                (raise (PyException driver_error_msg))))"

text \<open>The source lines whose call starts a new browser (or downloads a driver for one).\<close>

definition creation_lines :: "nat set" where
  "creation_lines = {181, 190, 198, 202, 212}"

subsection \<open>The Status Reporter\<close>

record status_report =
  browser_open :: bool
  logged_in :: bool
  report_message :: string
  current_url :: "string option"

definition looks_logged_in :: "string \<Rightarrow> bool" where
  "looks_logged_in url \<longleftrightarrow>
     contains ''vahan.parivahan.gov.in'' url \<and> \<not> contains ''login'' (lower url)"

text \<open>
  \<open>check_browser_status\<close> (lines 228-310). Without a handle: probe the port (line 242),
  then try to attach (line 252, which probes again). With a handle (its own or the
  adopted one): read \<open>current_url\<close> (line 275), set the login flag from the URL and save
  the session record; when the read raises, drop the handle, clear the flag and the
  record.
\<close>

definition check_browser_status :: "(status_report, 'r) prog" where
  "check_browser_status =
     fn_body
       (seq
          (bind get_driver_instance (\<lambda>handle.
             case handle of
               Some d \<Rightarrow> ret ()
             | None \<Rightarrow>
                    bind is_chrome_debugging_available (\<lambda>available.
                      if \<not> available then
                        return_value
                          \<lparr>browser_open = False, logged_in = False,
                           report_message = ''No browser instance found. Click 'Start' to open browser.'',
                           current_url = None\<rparr>
                      else
                        try_except
                          (bind try_connect_to_existing_chrome (\<lambda>existing_driver.
                             case existing_driver of
                               Some d \<Rightarrow> set_driver_instance (Some d)
                             | None \<Rightarrow>
                                 return_value
                                   \<lparr>browser_open = False, logged_in = False,
                                    report_message = ''Cannot connect to browser'',
                                    current_url = None\<rparr>))
                          (\<lambda>e. return_value
                                 \<lparr>browser_open = False, logged_in = False,
                                  report_message = ''No browser instance found'',
                                  current_url = None\<rparr>))))
          (try_except
             (bind (call 275) (\<lambda>r.
                if looks_logged_in (str_val r) then
                  seq (block [set_is_logged_in True, save_session_info])
                      (return_value
                         \<lparr>browser_open = True, logged_in = True,
                          report_message = ''Browser is open and user is logged in'',
                          current_url = Some (str_val r)\<rparr>)
                else
                  seq (block [set_is_logged_in False, save_session_info])
                      (return_value
                         \<lparr>browser_open = True, logged_in = False,
                          report_message = ''Browser is open but user is not logged in'',
                          current_url = Some (str_val r)\<rparr>)))
             (\<lambda>e. seq (block [set_driver_instance None, set_is_logged_in False, clear_session_info])
                      (return_value
                         \<lparr>browser_open = False, logged_in = False,
                          report_message = ''Browser instance is not responding'',
                          current_url = None\<rparr>))))"

subsection \<open>The Login Gate\<close>

definition url_left_login :: "string \<Rightarrow> string \<Rightarrow> bool" where
  "url_left_login login_url url \<longleftrightarrow> url \<noteq> login_url \<and> \<not> contains ''login'' (lower url)"

text \<open>
  The polling loop of \<open>wait_for_login\<close> (lines 329-358). One tick: read the clock
  (line 329) and stop with \<open>False\<close> when the timeout has elapsed; read \<open>current_url\<close>
  (line 331) and stop with \<open>False\<close> when the read raises (both branches of the handler
  of lines 349-356 return \<open>False\<close>); stop with \<open>True\<close> when the URL has left the login
  page, or when the lookup of post-login elements (line 342) finds one; a lookup that
  raises is ignored. The loop has no bound of its own: it ends when the clock says so,
  hence the \<open>option\<close>.
\<close>

partial_function (option) login_poll ::
  "real \<Rightarrow> real \<Rightarrow> string \<Rightarrow> world \<Rightarrow> (bool \<times> world) option" where
  "login_poll start_time timeout login_url w =
     (if stamp (answer 329 w) - start_time < timeout then
        (case (call 331 :: (reply, unit) prog) (tick 329 w) of
           (Normal r, w2) \<Rightarrow>
             if url_left_login login_url (str_val r) then Some (True, w2)
             else
               (case (call 342 :: (reply, unit) prog) w2 of
                  (Normal m, w3) \<Rightarrow>
                    if 0 < count m then Some (True, w3)
                    else login_poll start_time timeout login_url w3
                | (_, w3) \<Rightarrow> login_poll start_time timeout login_url w3)
         | (_, w2) \<Rightarrow> Some (False, w2))
      else Some (False, tick 329 w))"

text \<open>
  \<open>wait_for_login\<close> (lines 312-366): the start time (line 320), the initial
  \<open>current_url\<close> (line 323; \<open>False\<close> when it raises, as it does on a missing driver),
  then the loop. Nothing inside the loop can reach the outer handler of line 364.
\<close>

definition wait_for_login :: "driver option \<Rightarrow> real \<Rightarrow> world \<Rightarrow> (bool \<times> world) option" where
  "wait_for_login d timeout w =
     (case d of
        None \<Rightarrow> Some (False, tick 320 w)
      | Some h \<Rightarrow>
          (case (call 323 :: (reply, unit) prog) (tick 320 w) of
             (Normal r, w1) \<Rightarrow> login_poll (stamp (answer 320 w)) timeout (str_val r) w1
           | (_, w1) \<Rightarrow> Some (False, w1)))"

text \<open>What the i-th tick of the polling loop receives, counted from a world \<open>w\<close>.\<close>

definition tick_in_time :: "real \<Rightarrow> real \<Rightarrow> world \<Rightarrow> nat \<Rightarrow> bool" where
  "tick_in_time start_time timeout w i \<longleftrightarrow>
     stamp (replies w 329 (asked w 329 + i)) - start_time < timeout"

definition tick_read_fails :: "world \<Rightarrow> nat \<Rightarrow> bool" where
  "tick_read_fails w i \<longleftrightarrow> raises (replies w 331 (asked w 331 + i)) \<noteq> None"

definition tick_sees_login :: "string \<Rightarrow> world \<Rightarrow> nat \<Rightarrow> bool" where
  "tick_sees_login login_url w i \<longleftrightarrow>
     raises (replies w 331 (asked w 331 + i)) = None
     \<and> (url_left_login login_url (str_val (replies w 331 (asked w 331 + i)))
        \<or> (raises (replies w 342 (asked w 342 + i)) = None
           \<and> 0 < count (replies w 342 (asked w 342 + i))))"

definition tick_quiet :: "real \<Rightarrow> real \<Rightarrow> string \<Rightarrow> world \<Rightarrow> nat \<Rightarrow> bool" where
  "tick_quiet start_time timeout login_url w i \<longleftrightarrow>
     tick_in_time start_time timeout w i \<and> \<not> tick_read_fails w i
     \<and> \<not> tick_sees_login login_url w i"

text \<open>The loop gets as far as tick \<open>i\<close>: every earlier tick was in time and saw neither a
  failure nor a login.\<close>

definition tick_reached :: "real \<Rightarrow> real \<Rightarrow> string \<Rightarrow> world \<Rightarrow> nat \<Rightarrow> bool" where
  "tick_reached start_time timeout login_url w i \<longleftrightarrow>
     (\<forall>j<i. tick_quiet start_time timeout login_url w j)"

definition quiet_step :: "world \<Rightarrow> world" where
  "quiet_step w = tick 342 (tick 331 (tick 329 w))"

subsection \<open>Starting the session\<close>

text \<open>The result dictionaries of the engine's operations; a key an operation does not set
  is \<open>None\<close>.\<close>

record result =
  success :: bool
  message :: string
  status :: string
  action_required :: "string option"
  reused_session :: "bool option"
  processed_count :: "nat option"
  last_error :: "string option"

definition mk_result :: "bool \<Rightarrow> string \<Rightarrow> string \<Rightarrow> result" where
  "mk_result ok msg st =
     \<lparr>success = ok, message = msg, status = st, action_required = None,
      reused_session = None, processed_count = None, last_error = None\<rparr>"

definition VAHAN_URL :: string where
  "VAHAN_URL = ''https://vahan.parivahan.gov.in/vahan/vahan/ui/login/login.xhtml''"

text \<open>
  One pass of the navigation loop's body (lines 431-478): \<open>True\<close> when the page is
  loaded, \<open>False\<close> when the attempt is to be retried; an exception that is neither a
  timeout nor a network error is raised again.
\<close>

definition navigate_once :: "(bool, 'r) prog" where
  "navigate_once =
     try_except
       (seq (block [act 435, act 438, act 445])
            (bind (call 450) (\<lambda>r.
               ret (contains ''vahan.parivahan.gov.in'' (str_val r)
                    \<or> contains ''login'' (lower (str_val r))))))
       (\<lambda>e. if is_timeout e then ret False
             else if is_webdriver_exception e
                     \<and> (contains ''ERR_CONNECTION_RESET'' (str_of e) \<or> contains ''net::'' (str_of e))
               then ret False
             else raise e)"

text \<open>\<open>while retry_count < max_retries and not page_loaded\<close> with \<open>max_retries = 3\<close>;
  the value is \<open>page_loaded\<close>.\<close>

function navigate :: "nat \<Rightarrow> world \<Rightarrow> (bool, result) outcome \<times> world" where
  "navigate retry_count w =
     (if retry_count < 3 then
        (case navigate_once w of
           (Normal page_loaded, w') \<Rightarrow>
             if page_loaded then (Normal True, w') else navigate (Suc retry_count) w'
         | (Raised e, w') \<Rightarrow> (Raised e, w')
         | (Returned r, w') \<Rightarrow> (Returned r, w'))
      else (Normal False, w))"
  by pat_completeness auto
termination
  by (relation "measure (\<lambda>(retry_count, w). 3 - retry_count)") auto

declare navigate.simps [simp del]

text \<open>
  The first half of the fresh start (lines 416-507 and the handler of lines 529-546):
  create the driver, store the handle, load the page. When the page does not load,
  quit the driver (line 498) and return \<open>connection_error\<close>; on any exception quit
  the driver (line 536), clear the session record and return \<open>error\<close>.
\<close>

definition open_vahan_page :: "(driver, result) prog" where
  "open_vahan_page =
     try_except
       (bind create_vahan_driver (\<lambda>driver.
          seq (set_driver_instance (Some driver))
              (bind (navigate 0) (\<lambda>page_loaded.
                 if \<not> page_loaded then
                   seq (bind get_driver_instance (\<lambda>handle.
                          case handle of
                            Some d \<Rightarrow>
                              try_except (seq (act 498) (set_driver_instance None)) (\<lambda>e. ret ())
                          | None \<Rightarrow> ret ()))
                       (return_value
                          (mk_result False
                             ''Failed to connect to Vahan website. Please check your internet connection and try again. See logs for details.''
                             ''connection_error''))
                 else ret driver))))
       (\<lambda>e. seq (bind get_driver_instance (\<lambda>handle.
                    case handle of
                      Some d \<Rightarrow>
                        try_except
                          (block [act 536, set_driver_instance None, clear_session_info])
                          (\<lambda>e. ret ())
                    | None \<Rightarrow> ret ()))
                (return_value
                   (mk_result False (''Error starting Vahan browser: '' @ str_of e) ''error'')))"

text \<open>
  \<open>start_vahan_browser\<close> (lines 368-546). \<open>wait_for_login\<close> and \<open>save_session_info\<close>
  raise nothing, so the handlers around them (lines 407 and 529) see only what
  \<open>open_vahan_page\<close> covers. The value is \<open>None\<close> when the login wait never ends.
\<close>

definition start_vahan_browser :: "world \<Rightarrow> ((result, result) outcome \<times> world) option" where
  "start_vahan_browser w =
     (case (check_browser_status :: (status_report, result) prog) w of
        (Normal st, w1) \<Rightarrow>
          if browser_open st \<and> logged_in st then
            Some (Normal ((mk_result True
                            ''Browser already open and logged in. Ready for automation!''
                            ''already_logged_in'')\<lparr>reused_session := Some True\<rparr>), w1)
          else if browser_open st \<and> \<not> logged_in st then
            (case wait_for_login (driver_instance w1) 300 w1 of
               None \<Rightarrow> None
             | Some (login_success, w2) \<Rightarrow>
                 if login_success then
                   Some (Normal (mk_result True ''Login acknowledged successfully!'' ''login_success''),
                         w2\<lparr>is_logged_in := True\<rparr>)
                 else
                   Some (Normal (mk_result False
                                   ''Login timeout - please try again and login within 5 minutes''
                                   ''login_timeout''), w2))
          else
            (case open_vahan_page w1 of
               (Normal driver, w2) \<Rightarrow>
                 (case wait_for_login (Some driver) 300 w2 of
                    None \<Rightarrow> None
                  | Some (login_success, w3) \<Rightarrow>
                      if login_success then
                        Some (Normal (mk_result True
                                        ''Browser started and login acknowledged successfully!''
                                        ''login_success''),
                              snd ((save_session_info :: (unit, result) prog)
                                     (w3\<lparr>is_logged_in := True\<rparr>)))
                      else
                        Some (Normal (mk_result False
                                        ''Login timeout - please try again and login within 5 minutes''
                                        ''login_timeout''), w3))
             | (Returned r, w2) \<Rightarrow> Some (Normal r, w2)
             | (Raised e, w2) \<Rightarrow> Some (Raised e, w2))
      | (Raised e, w1) \<Rightarrow> Some (Raised e, w1)
      | (Returned r, w1) \<Rightarrow> Some (Returned r, w1))"

subsection \<open>The recovery affordance\<close>

text \<open>\<open>for element in back_to_home_elements\<close> (lines 606-615): click the first element whose
  tag is a button, a link or an input; an element that raises is skipped.\<close>

fun click_first_clickable :: "nat \<Rightarrow> (unit, bool) prog" where
  "click_first_clickable 0 = ret ()"
| "click_first_clickable (Suc n) =
     seq (try_except
            (bind (call 608) (\<lambda>tag.
               if str_val tag \<in> set [''button'', ''a'', ''input'']
               then seq (act 610) (return_value True) else ret ()))
            (\<lambda>e. ret ()))
         (click_first_clickable n)"

text \<open>
  \<open>check_for_back_to_home_page\<close> (lines 578-634): \<open>True\<close> when a 'Back to Home-Page'
  element was found and clicked: by its id (lines 586-589), as the first clickable
  element with that text (lines 597-610), or as the ancestor of such a text (lines
  619-624). It raises nothing.
\<close>

definition check_for_back_to_home_page :: "driver \<Rightarrow> (bool, 'r) prog" where
  "check_for_back_to_home_page driver =
     fn_body
       (try_except
          (seq (try_except
                  (seq (act 586)
                       (bind (call 587) (\<lambda>t.
                          if contains ''back to home'' (lower (str_val t))
                          then seq (act 589) (return_value True) else ret ())))
                  (\<lambda>e. ret ()))
               (bind (call 597) (\<lambda>found.
                  seq (if 0 < count found then
                         seq (click_first_clickable (count found))
                             (try_except (seq (block [act 619, act 624]) (return_value True))
                                         (\<lambda>e. ret ()))
                       else ret ())
                      (return_value False))))
          (\<lambda>e. return_value False))"

subsection \<open>The steps of the workflow\<close>

text \<open>\<open>try: m; ok = True except: pass\<close>: whether \<open>m\<close> went through.\<close>

definition attempt :: "(unit, 'r) prog \<Rightarrow> (bool, 'r) prog" where
  "attempt m = try_except (seq m (ret True)) (\<lambda>e. ret False)"

text \<open>Strategies tried in order until one goes through (steps 19 and 20).\<close>

fun first_to_succeed :: "(unit, 'r) prog list \<Rightarrow> (bool, 'r) prog" where
  "first_to_succeed [] = ret False"
| "first_to_succeed (m # ms) =
     bind (attempt m) (\<lambda>ok. if ok then ret True else first_to_succeed ms)"

text \<open>Step 1.5 (lines 689-752): close the optional alert popup; never fails.\<close>

definition step1_5_alert_popup :: "(unit, 'r) prog" where
  "step1_5_alert_popup =
     try_except
       (bind (call 695) (\<lambda>alert_dialog.
          if 0 < count alert_dialog then
            bind (call 700) (\<lambda>displayed.
              if flag displayed then
                seq (act 704)
                    (bind (attempt (block [act 718, act 724])) (\<lambda>close_clicked.
                       if \<not> close_clicked
                       then seq (attempt (block [act 733, act 737])) (ret ())
                       else ret ()))
              else ret ())
          else ret ()))
       (\<lambda>e. ret ())"

text \<open>Step 2 (lines 755-796): expand 'Dealer Registration' unless it is expanded.\<close>

definition step2_dealer_registration :: "(unit, 'r) prog" where
  "step2_dealer_registration =
     block
       [act 758,
        try_except
          (bind (call 765) (\<lambda>already_expanded.
             if 0 < count already_expanded then ret () else block [act 774, act 781]))
          (\<lambda>e. block [act 788, act 794])]"

text \<open>Step 3 (lines 798-834): expand 'New Registration (Dealer Side)' unless it is expanded.\<close>

definition step3_new_registration :: "(unit, 'r) prog" where
  "step3_new_registration =
     try_except
       (bind (call 803) (\<lambda>already_expanded.
          if 0 < count already_expanded then ret () else block [act 812, act 819]))
       (\<lambda>e. block [act 826, act 832])"

text \<open>Step 4 (lines 836-850): the 'View Detail' link beside NEW-RC-APPROVAL.\<close>

definition step4_view_detail :: "(unit, 'r) prog" where
  "step4_view_detail = block [act 840, act 847]"

definition no_approve_button :: result where
  "no_approve_button =
     mk_result False ''No more pending applications to process.'' ''no_approve_button''"

text \<open>
  Step 5 (lines 852-916), the work-item gate: wait for the table (line 856), look for
  the approve buttons of the first row (line 866); none means no more work. On a
  timeout, look at the table again (lines 899-900).
\<close>

definition step5_first_approve :: "(unit, result) prog" where
  "step5_first_approve =
     try_except
       (seq (act 856)
            (bind (call 866) (\<lambda>approve_buttons.
               if count approve_buttons = 0 then return_value no_approve_button
               else block [act 882, act 889])))
       (\<lambda>e. if is_timeout e then
               seq (try_except
                      (seq (act 899)
                           (bind (call 900) (\<lambda>rows.
                              if count rows = 0 then return_value no_approve_button else ret ())))
                      (\<lambda>e. ret ()))
                   (return_value
                      (mk_result False
                         ''Pending Applications table or Approve button not found. The page may not have loaded correctly.''
                         ''table_not_found''))
             else raise e)"

text \<open>Step 6 (lines 918-950): tick the verification checkbox unless it is ticked.\<close>

definition step6_verification_checkbox :: "(unit, result) prog" where
  "step6_verification_checkbox =
     try_except
       (block
          [act 923, act 933,
           bind (call 934) (\<lambda>checkbox_classes.
             if contains ''ui-state-active'' (str_val checkbox_classes) then ret ()
             else act 940)])
       (\<lambda>e. if is_timeout e then
               return_value
                 (mk_result False
                    ''Verification checkbox not found. The approval page may not have loaded correctly.''
                    ''checkbox_not_found'')
             else raise e)"

text \<open>Step 7 (lines 952-975): the 'Documents Uploaded' tab.\<close>

definition step7_documents_tab :: "(unit, result) prog" where
  "step7_documents_tab =
     try_except
       (block [act 957, act 964])
       (\<lambda>e. if is_timeout e then
               return_value
                 (mk_result False
                    ''Documents Uploaded tab not found. The page may not have loaded correctly.''
                    ''tab_not_found'')
             else raise e)"

text \<open>Step 8 (lines 977-1005): the 'Modify/View Documents' button.\<close>

definition step8_modify_view :: "(unit, result) prog" where
  "step8_modify_view =
     try_except
       (block [act 982, act 991, act 994])
       (\<lambda>e. if is_timeout e then
               return_value
                 (mk_result False
                    ''Modify/View Documents button not found. The Documents Uploaded tab content may not have loaded correctly.''
                    ''modify_button_not_found'')
             else raise e)"

text \<open>
  Closing the DMS modal (step 9, lines 1007-1077, and step 13, lines 1334-1403): back
  to the top-level document, wait for the dialog, find its close button by one of
  three locators, click it (by script when the plain click fails). The arguments are
  the source lines of the calls, in order.
\<close>

definition close_dms_modal ::
  "nat \<Rightarrow> nat \<Rightarrow> nat \<Rightarrow> nat \<Rightarrow> nat \<Rightarrow> nat \<Rightarrow> nat \<Rightarrow> nat \<Rightarrow> nat \<Rightarrow> string \<Rightarrow> string
     \<Rightarrow> (unit, result) prog" where
  "close_dms_modal l_top l_dialog l_find1 l_find2 l_find3 l_scroll l_wait l_click l_script msg st =
     try_except
       (block
          [switch_to_default_content l_top, act l_dialog,
           try_except (act l_find1) (\<lambda>e. try_except (act l_find2) (\<lambda>e. act l_find3)),
           try_except (block [act l_scroll, act l_wait, act l_click]) (\<lambda>e. act l_script)])
       (\<lambda>e. if is_timeout e then return_value (mk_result False msg st) else raise e)"

definition step9_close_modal :: "(unit, result) prog" where
  "step9_close_modal =
     close_dms_modal 1011 1014 1027 1035 1042 1052 1056 1061 1066
       ''Modal close button not found.'' ''modal_close_not_found''"

text \<open>
  Closing the confirmation popup (step 10, lines 1079-1138, and step 14, lines
  1405-1464): any exception gives \<open>popup_close_not_found\<close>.
\<close>

definition close_confirmation_popup ::
  "nat \<Rightarrow> nat \<Rightarrow> nat \<Rightarrow> nat \<Rightarrow> nat \<Rightarrow> string \<Rightarrow> (unit, result) prog" where
  "close_confirmation_popup l_find l_fallback l_overlays l_click l_script msg =
     try_except
       (block
          [try_except (act l_find) (\<lambda>e. act l_fallback),
           try_except (block [act l_overlays, act l_click]) (\<lambda>e. act l_script)])
       (\<lambda>e. return_value (mk_result False msg ''popup_close_not_found''))"

definition step10_close_popup :: "(unit, result) prog" where
  "step10_close_popup =
     close_confirmation_popup 1089 1098 1111 1121 1127 ''Could not close success message popup.''"

text \<open>Step 11 (lines 1140-1172): 'Modify/View Documents' again, clicked by script.\<close>

definition step11_modify_view_again :: "(unit, result) prog" where
  "step11_modify_view_again =
     try_except
       (block [act 1143, act 1153])
       (\<lambda>e. if is_timeout e then
               return_value
                 (mk_result False ''Modify/View Documents button not found on second attempt.''
                    ''modify_button_2_not_found'')
             else if is_webdriver_exception e then
               return_value
                 (mk_result False
                    (''Could not click Modify/View Documents button - it may be blocked by another element. Error: ''
                       @ take 100 (str_of e))
                    ''modify_button_2_click_error'')
             else raise e)"

text \<open>
  The checkbox sweep of step 12 (lines 1229-1277), once per checkbox found: skip a
  disabled or ticked one, else scroll to it and click it by script, by a plain click
  when the script fails. An exception on one checkbox is logged and the sweep goes on.
\<close>

fun sweep_checkboxes :: "nat \<Rightarrow> (unit, 'r) prog" where
  "sweep_checkboxes 0 = ret ()"
| "sweep_checkboxes (Suc n) =
     seq (try_except
            (seq (act 1232)
               (bind (call 1235) (\<lambda>is_disabled.
                  bind (call 1238) (\<lambda>is_checked.
                    bind (call 1239) (\<lambda>checked_attr.
                      if str_val is_disabled \<noteq> [] then ret ()
                      else if flag is_checked \<or> str_val checked_attr \<noteq> [] then ret ()
                      else seq (act 1259) (try_except (act 1265) (\<lambda>e. act 1270)))))))
            (\<lambda>e. ret ()))
         (sweep_checkboxes n)"

text \<open>The \<open>try\<close> body of step 12 (lines 1177-1285): enter the DMS frame (line 1192), wait
  for the checkboxes, sweep them, leave the frame (line 1282).\<close>

definition step12_in_frame :: "(unit, 'r) prog" where
  "step12_in_frame =
     block
       [act 1185, switch_to_frame 1192, act 1204,
        try_except (act 1213) (\<lambda>e. ret ()),
        bind (call 1219) (\<lambda>approved_checkboxes. sweep_checkboxes (count approved_checkboxes)),
        switch_to_default_content 1282]"

text \<open>
  Step 12 (lines 1174-1332). On a timeout: leave the frame (line 1292), read the page
  source for the log (line 1299), look for the recovery affordance and, when it was
  there and the budget is not used up, run the sequence again from step 1 (\<open>retry\<close>
  stands for \<open>run_automation_internal(retry_count + 1, max_retries)\<close>). On any other
  exception: leave the frame (line 1323) and give \<open>checkbox_processing_error\<close>.
\<close>

definition checkboxes_not_found :: result where
  "checkboxes_not_found =
     mk_result False
       ''ApprovedStatus checkboxes not found. The page may not have loaded completely, or Angular is still initializing.''
       ''checkboxes_not_found''"

definition step12_approved_checkboxes ::
  "(result, result) prog \<Rightarrow> driver \<Rightarrow> nat \<Rightarrow> nat \<Rightarrow> (unit, result) prog" where
  "step12_approved_checkboxes retry driver retry_count max_retries =
     try_except step12_in_frame
       (\<lambda>e. if is_timeout e then
               block
                 [try_except (switch_to_default_content 1292) (\<lambda>e. ret ()),
                  try_except (act 1299) (\<lambda>e. ret ()),
                  bind (check_for_back_to_home_page driver) (\<lambda>at_home.
                    if at_home then
                      (if retry_count < max_retries then bind retry return_value else ret ())
                    else ret ()),
                  return_value checkboxes_not_found]
             else
               seq (try_except (switch_to_default_content 1323) (\<lambda>e. ret ()))
                   (return_value
                      (mk_result False
                         (''Error processing approvedStatus checkboxes: '' @ take 100 (str_of e))
                         ''checkbox_processing_error'')))"

definition step13_close_modal_again :: "(unit, result) prog" where
  "step13_close_modal_again =
     close_dms_modal 1338 1341 1353 1361 1368 1378 1382 1387 1392
       ''Modal close button not found on second attempt.'' ''modal_close_2_not_found''"

definition step14_close_popup_again :: "(unit, result) prog" where
  "step14_close_popup_again =
     close_confirmation_popup 1415 1424 1437 1447 1453
       ''Could not close success message popup on second attempt.''"

text \<open>Step 15 (lines 1466-1488): the 'Save-Options' dropdown.\<close>

definition step15_save_options :: "(unit, result) prog" where
  "step15_save_options =
     try_except
       (block [act 1470, act 1477])
       (\<lambda>e. if is_timeout e then
               return_value (mk_result False ''Save-Options button not found.'' ''save_options_not_found'')
             else raise e)"

text \<open>Step 16 (lines 1490-1512): 'File Movement' in the dropdown.\<close>

definition step16_file_movement :: "(unit, result) prog" where
  "step16_file_movement =
     try_except
       (block [act 1494, act 1501])
       (\<lambda>e. if is_timeout e then
               return_value
                 (mk_result False ''File Movement option not found in dropdown.''
                    ''file_movement_not_found'')
             else raise e)"

text \<open>Step 17 (lines 1514-1531): wait for the File Movement modal; a timeout is only logged.\<close>

definition step17_modal_opened :: "(unit, 'r) prog" where
  "step17_modal_opened =
     try_except (act 1519) (\<lambda>e. if is_timeout e then ret () else raise e)"

text \<open>Step 18 (lines 1533-1586): select 'Proceed to Next Seat' unless it is selected.\<close>

definition step18_proceed_to_next_seat :: "(unit, result) prog" where
  "step18_proceed_to_next_seat =
     try_except
       (block
          [act 1541, act 1550, act 1556,
           bind (call 1564) (\<lambda>box_classes.
             if \<not> contains ''ui-state-active'' (str_val box_classes) then act 1567 else ret ())])
       (\<lambda>e. if is_timeout e then
               return_value
                 (mk_result False
                    ''Could not find 'Proceed to Next Seat' radio button in File Movement modal''
                    ''element_not_found'')
             else
               return_value
                 (mk_result False (''Error selecting radio button: '' @ str_of e) ''error''))"

text \<open>Steps 19 and 20 (lines 1588-1670, 1672-1757): several ways to click a button, tried
  in order; when none goes through the step raises and its own handler gives \<open>error\<close>.\<close>

definition click_by_strategies ::
  "(unit, result) prog list \<Rightarrow> string \<Rightarrow> string \<Rightarrow> string \<Rightarrow> (unit, result) prog" where
  "click_by_strategies strategies failed_msg timeout_msg error_prefix =
     try_except
       (bind (first_to_succeed strategies) (\<lambda>clicked.
          if \<not> clicked then raise (PyException failed_msg) else ret ()))
       (\<lambda>e. if is_timeout e then return_value (mk_result False timeout_msg ''element_not_found'')
             else return_value (mk_result False (error_prefix @ str_of e) ''error''))"

definition step19_save :: "(unit, result) prog" where
  "step19_save =
     click_by_strategies
       [block [act 1596, act 1603], block [act 1612, act 1616],
        block [act 1625, act 1630], block [act 1639, act 1646]]
       ''All strategies to click Save button failed''
       ''Could not find Save button in File Movement modal''
       ''Error clicking Save button: ''"

definition step20_confirm_yes :: "(unit, result) prog" where
  "step20_confirm_yes =
     click_by_strategies
       [block [act 1683, act 1692, act 1701], block [act 1710, act 1717],
        block [act 1726, act 1733]]
       ''All strategies to click Yes button failed''
       ''Could not find Yes button in confirmation dialog''
       ''Error clicking Yes button: ''"

subsection \<open>The Step Sequencer\<close>

definition automation_completed :: result where
  "automation_completed =
     mk_result True ''Automation completed successfully! All steps executed.'' ''completed''"

text \<open>
  \<open>execute_remaining_steps\<close> (lines 685-1780): step 1.5, then steps 2 to 20 inside the
  outer \<open>try\<close>, whose handlers turn a timeout that no step caught into
  \<open>element_not_found\<close> and every other exception into \<open>error\<close>. The first argument is
  the call \<open>run_automation_internal(retry_count + 1, max_retries)\<close> of step 12.
\<close>

definition execute_remaining_steps_with ::
  "(result, result) prog \<Rightarrow> driver \<Rightarrow> nat \<Rightarrow> nat \<Rightarrow> (result, result) prog" where
  "execute_remaining_steps_with retry driver retry_count max_retries =
     fn_body
       (seq step1_5_alert_popup
          (try_except
             (seq (block
                     [step2_dealer_registration, step3_new_registration, step4_view_detail,
                      step5_first_approve, step6_verification_checkbox, step7_documents_tab,
                      step8_modify_view, step9_close_modal, step10_close_popup,
                      step11_modify_view_again,
                      step12_approved_checkboxes retry driver retry_count max_retries,
                      step13_close_modal_again, step14_close_popup_again, step15_save_options,
                      step16_file_movement, step17_modal_opened, step18_proceed_to_next_seat,
                      step19_save, step20_confirm_yes])
                  (return_value automation_completed))
             (\<lambda>e. if is_timeout e then
                     return_value
                       (mk_result False
                          ''Dealer Registration element not found. The page may not have loaded correctly.''
                          ''element_not_found'')
                   else
                     return_value
                       (mk_result False (''Error during automation: '' @ str_of e) ''error''))))"

lemma execute_remaining_steps_with_cong [fundef_cong]:
  assumes "driver = driver'" and "retry_count = retry_count'" and "max_retries = max_retries'"
    and "w = w'"
    and "\<And>v. retry_count' < max_retries' \<Longrightarrow> retry v = retry' v"
  shows "execute_remaining_steps_with retry driver retry_count max_retries w =
         execute_remaining_steps_with retry' driver' retry_count' max_retries' w'"
proof (cases "retry_count' < max_retries'")
  case True
  with assms(5) have "retry = retry'" by (simp add: fun_eq_iff)
  with assms(1-4) show ?thesis by simp
next
  case False
  then have "step12_approved_checkboxes retry driver' retry_count' max_retries' =
             step12_approved_checkboxes retry' driver' retry_count' max_retries'"
    by (simp add: step12_approved_checkboxes_def)
  with assms(1-4) show ?thesis by (simp add: execute_remaining_steps_with_def)
qed

text \<open>Step 1 (lines 649-662): wait for the 'Dashboard Pendency' button and click it.\<close>

definition step1_dashboard_pendency :: "(unit, 'r) prog" where
  "step1_dashboard_pendency = block [act 653, act 657]"

definition button_not_found :: result where
  "button_not_found =
     (mk_result False
        ''Dashboard Pendency button not found. Please ensure you are logged in correctly. If you see a login page, please login and try again.''
        ''button_not_found'')\<lparr>action_required := Some ''login''\<rparr>"

text \<open>
  \<open>run_automation_internal\<close> (lines 636-683): look for the recovery affordance, then
  step 1. Only a timeout of step 1 is caught: with budget left and the affordance found
  and clicked, the sequence starts again with one more retry counted; else
  \<open>button_not_found\<close>. Without a driver the wait of line 653 raises AttributeError.
  The first argument stands for the call
  \<open>run_automation_internal(retry_count + 1, max_retries)\<close>.
\<close>

definition run_automation_internal_with ::
  "(result, result) prog \<Rightarrow> nat \<Rightarrow> nat \<Rightarrow> (result, result) prog" where
  "run_automation_internal_with retry retry_count max_retries =
     fn_body
       (bind get_driver_instance (\<lambda>handle.
          case handle of
            None \<Rightarrow> raise (PyException ''AttributeError'')
          | Some driver \<Rightarrow>
              seq (check_for_back_to_home_page driver)
                (seq (try_except step1_dashboard_pendency
                        (\<lambda>e. if is_timeout e then
                                seq (if retry_count < max_retries then
                                       bind (check_for_back_to_home_page driver) (\<lambda>at_home.
                                         if at_home then bind retry return_value else ret ())
                                     else ret ())
                                    (return_value button_not_found)
                              else raise e))
                     (bind (execute_remaining_steps_with retry driver retry_count max_retries)
                        return_value))))"

lemma run_automation_internal_with_cong [fundef_cong]:
  assumes "retry_count = retry_count'" and "max_retries = max_retries'" and "w = w'"
    and "\<And>v. retry_count' < max_retries' \<Longrightarrow> retry v = retry' v"
  shows "run_automation_internal_with retry retry_count max_retries w =
         run_automation_internal_with retry' retry_count' max_retries' w'"
proof (cases "retry_count' < max_retries'")
  case True
  with assms(4) have "retry = retry'" by (simp add: fun_eq_iff)
  with assms(1-3) show ?thesis by simp
next
  case False
  then have "\<And>d. execute_remaining_steps_with retry d retry_count' max_retries' =
                  execute_remaining_steps_with retry' d retry_count' max_retries'"
    by (intro ext execute_remaining_steps_with_cong) simp_all
  with False assms(1-3) show ?thesis
    by (simp add: run_automation_internal_with_def cong: if_cong option.case_cong)
qed

function run_automation_internal ::
  "nat \<Rightarrow> nat \<Rightarrow> world \<Rightarrow> (result, result) outcome \<times> world" where
  "run_automation_internal retry_count max_retries w =
     run_automation_internal_with (\<lambda>v. run_automation_internal (Suc retry_count) max_retries v)
       retry_count max_retries w"
  by pat_completeness auto
termination
  by (relation "measure (\<lambda>(retry_count, max_retries, w). max_retries - retry_count)") auto

declare run_automation_internal.simps [simp del]

definition execute_remaining_steps ::
  "driver \<Rightarrow> nat \<Rightarrow> nat \<Rightarrow> (result, result) prog" where
  "execute_remaining_steps driver retry_count max_retries =
     execute_remaining_steps_with (run_automation_internal (Suc retry_count) max_retries)
       driver retry_count max_retries"

text \<open>An invocation of the sequencer up to the gate: the look for the recovery affordance,
  then steps 1 to 4.\<close>

definition to_the_gate :: "driver \<Rightarrow> (unit, result) prog" where
  "to_the_gate driver =
     block
       [seq (check_for_back_to_home_page driver) (ret ()), step1_dashboard_pendency,
        step1_5_alert_popup, step2_dealer_registration, step3_new_registration,
        step4_view_detail]"

text \<open>The table is there (line 856) and has no approve button in its first row (line 866).\<close>

definition gate_finds_nothing :: "world \<Rightarrow> bool" where
  "gate_finds_nothing w \<longleftrightarrow>
     raises (answer 856 w) = None \<and> raises (answer 866 w) = None \<and> count (answer 866 w) = 0"

subsection \<open>Timeouts answered by a look for the recovery affordance\<close>

text \<open>
  The two places where a timeout is answered by a look for the recovery affordance:
  step 1 (lines 664-680) and step 12 (lines 1287-1317).
\<close>

datatype recovery_site = AtStep1 | AtStep12

text \<open>An invocation of the sequencer up to the start of step 12.\<close>

definition to_step12 :: "driver \<Rightarrow> (unit, result) prog" where
  "to_step12 driver =
     block
       [seq (check_for_back_to_home_page driver) (ret ()), step1_dashboard_pendency,
        step1_5_alert_popup, step2_dealer_registration, step3_new_registration,
        step4_view_detail, step5_first_approve, step6_verification_checkbox,
        step7_documents_tab, step8_modify_view, step9_close_modal, step10_close_popup,
        step11_modify_view_again]"

definition leave_and_look :: "(unit, result) prog" where
  "leave_and_look =
     seq (try_except (switch_to_default_content 1292) (\<lambda>e. ret ()))
         (try_except (act 1299) (\<lambda>e. ret ()))"

text \<open>
  \<open>recovery_point site d w = Some v\<close>: the invocation of the sequencer that starts in
  \<open>w\<close> suffers a timeout at the site, and \<open>v\<close> is the world in which its handler looks for
  the recovery affordance (at step 1, when the budget allows the look). At step 1 that
  is the world the timed-out step left; at step 12 the handler has left the frame (line
  1292) and read the page source (line 1299) before.
\<close>

fun recovery_point :: "recovery_site \<Rightarrow> driver \<Rightarrow> world \<Rightarrow> world option" where
  "recovery_point AtStep1 d w =
     (case (seq (check_for_back_to_home_page d) step1_dashboard_pendency :: (unit, result) prog) w of
        (Raised e, v) \<Rightarrow> if is_timeout e then Some v else None
      | (_, v) \<Rightarrow> None)"
| "recovery_point AtStep12 d w =
     (case to_step12 d w of
        (Normal x, w1) \<Rightarrow>
          (case (step12_in_frame :: (unit, result) prog) w1 of
             (Raised e, w2) \<Rightarrow>
               if is_timeout e then
                 Some (snd (leave_and_look w2))
               else None
           | (_, w2) \<Rightarrow> None)
      | (_, w1) \<Rightarrow> None)"

fun fatal_result :: "recovery_site \<Rightarrow> result" where
  "fatal_result AtStep1 = button_not_found"
| "fatal_result AtStep12 = checkboxes_not_found"

text \<open>The steps between step 1 and step 12.\<close>

definition steps_1_5_to_11 :: "(unit, result) prog" where
  "steps_1_5_to_11 =
     block
       [step1_5_alert_popup, step2_dealer_registration, step3_new_registration,
        step4_view_detail, step5_first_approve, step6_verification_checkbox,
        step7_documents_tab, step8_modify_view, step9_close_modal, step10_close_popup,
        step11_modify_view_again]"

text \<open>
  \<open>timeouts_with_affordance site d k n w\<close>: from \<open>w\<close> on, every invocation of the
  sequencer suffers a timeout at the site, for as long as \<open>n\<close> restarts allow; and the
  looks for the recovery affordance that answer these timeouts find it \<open>k\<close> times, then
  no more.
\<close>

fun timeouts_with_affordance :: "recovery_site \<Rightarrow> driver \<Rightarrow> nat \<Rightarrow> nat \<Rightarrow> world \<Rightarrow> bool" where
  "timeouts_with_affordance site d k 0 w = (recovery_point site d w \<noteq> None)"
| "timeouts_with_affordance site d k (Suc n) w =
     (case recovery_point site d w of
        None \<Rightarrow> False
      | Some v \<Rightarrow>
          (case (check_for_back_to_home_page d :: (bool, result) prog) v of
             (Normal at_home, w') \<Rightarrow>
               at_home = (0 < k) \<and> (at_home \<longrightarrow> timeouts_with_affordance site d (k - 1) n w')
           | (_, w') \<Rightarrow> False))"


subsection \<open>The Loop Controller\<close>

fun show_nat :: "nat \<Rightarrow> string" where
  "show_nat n =
     (if n < 10 then [char_of (48 + n)] else show_nat (n div 10) @ [char_of (48 + n mod 10)])"

declare show_nat.simps [simp del]

definition all_processed :: "nat \<Rightarrow> result" where
  "all_processed n =
     (mk_result True
        (''Automation completed successfully! Processed '' @ show_nat n
           @ '' item(s). No more pending approvals found.'')
        ''completed'')\<lparr>processed_count := Some n\<rparr>"

definition stopped_after_errors :: "nat \<Rightarrow> result \<Rightarrow> result" where
  "stopped_after_errors n r =
     (mk_result False
        (''Automation stopped after 3 consecutive errors. Processed '' @ show_nat n
           @ '' item(s) successfully before errors. Last error: '' @ message r)
        (status r))\<lparr>processed_count := Some n, last_error := Some (message r)\<rparr>"

text \<open>
  The \<open>while True\<close> loop of \<open>run_automation\<close> (lines 1809-1866), with its two counters
  as arguments and \<open>max_consecutive_errors = 3\<close>. It has no bound of its own (a
  sequencer that always succeeds keeps it running), hence the \<open>option\<close>. An exception
  of the sequencer is not caught.
\<close>

partial_function (option) automation_loop ::
  "nat \<Rightarrow> nat \<Rightarrow> world \<Rightarrow> ((result, result) outcome \<times> world) option" where
  "automation_loop processed error_count w =
     (case run_automation_internal 0 2 w of
        (Normal r, w') \<Rightarrow>
          if success r then automation_loop (Suc processed) 0 w'
          else if status r = ''no_approve_button'' then Some (Normal (all_processed processed), w')
          else if 3 \<le> Suc error_count then Some (Normal (stopped_after_errors processed r), w')
          else automation_loop processed (Suc error_count) w'
      | (Raised e, w') \<Rightarrow> Some (Raised e, w')
      | (Returned r, w') \<Rightarrow> Some (Returned r, w'))"

text \<open>\<open>run_automation\<close> (lines 1782-1866): the status check, then the loop.\<close>

definition run_automation :: "world \<Rightarrow> ((result, result) outcome \<times> world) option" where
  "run_automation w =
     (case (check_browser_status :: (status_report, result) prog) w of
        (Normal st, w1) \<Rightarrow>
          if \<not> browser_open st then
            Some (Normal (mk_result False
                            ''Browser is not open. Please click 'Start' to open the browser and login first.''
                            ''browser_not_open''), w1)
          else if \<not> logged_in st then
            Some (Normal (mk_result False
                            ''You are not logged in. Please login to Vahan website first.''
                            ''not_logged_in''), w1)
          else automation_loop 0 0 w1
      | (Raised e, w1) \<Rightarrow> Some (Raised e, w1)
      | (Returned r, w1) \<Rightarrow> Some (Returned r, w1))"

subsection \<open>Closing the session\<close>

text \<open>\<open>close_vahan_browser\<close> (lines 1868-1890); \<open>driver_instance.quit()\<close> is the outside
  call of line 1875.\<close>

definition close_vahan_browser :: "(bool, 'r) prog" where
  "close_vahan_browser =
     bind get_driver_instance (\<lambda>handle.
       case handle of
         Some d \<Rightarrow>
           try_except
             (seq (block [act 1875, set_driver_instance None, set_is_logged_in False,
                          clear_session_info])
                  (ret True))
             (\<lambda>e. seq (block [set_driver_instance None, set_is_logged_in False,
                               clear_session_info])
                       (ret False))
       | None \<Rightarrow> seq clear_session_info (ret True))"

subsection \<open>The states the engine reaches\<close>

text \<open>
  The module is loaded with no handle and the flag off (lines 23-24); from then on the
  globals change only through the four operations that \<open>main.py\<close> imports.
\<close>

inductive reachable :: "world \<Rightarrow> bool" where
  loaded: "driver_instance w = None \<Longrightarrow> \<not> is_logged_in w \<Longrightarrow> reachable w"
| status: "reachable w \<Longrightarrow>
     (check_browser_status :: (status_report, result) prog) w = (out, w') \<Longrightarrow> reachable w'"
| start: "reachable w \<Longrightarrow> start_vahan_browser w = Some (res, w') \<Longrightarrow> reachable w'"
| run: "reachable w \<Longrightarrow> run_automation w = Some (res, w') \<Longrightarrow> reachable w'"
| close: "reachable w \<Longrightarrow>
     (close_vahan_browser :: (bool, result) prog) w = (done_ok, w') \<Longrightarrow> reachable w'"

definition flag_needs_handle :: "world \<Rightarrow> bool" where
  "flag_needs_handle w \<longleftrightarrow> (driver_instance w = None \<longrightarrow> \<not> is_logged_in w)"


subsection \<open>Worlds for concrete runs\<close>

definition ok_reply :: reply where
  "ok_reply = \<lparr>raises = None, count = 0, str_val = [], flag = False, stamp = 0\<rparr>"

text \<open>A world with no handle, no flag, no file, at the top-level document, in which no
  line has run yet.\<close>

definition fresh_world :: "(nat \<Rightarrow> nat \<Rightarrow> reply) \<Rightarrow> world" where
  "fresh_world rs =
     \<lparr>replies = rs, asked = (\<lambda>L. 0), driver_instance = None, is_logged_in = False,
      session_file = None, in_frame = False\<rparr>"

definition home_url :: string where
  "home_url = ''https://vahan.parivahan.gov.in/vahan/vahan/home.xhtml''"

section \<open>Facts about the model\<close>

subsection \<open>The primitives\<close>

lemmas prog_defs = bind_def seq_def try_except_def fn_body_def ret_def raise_def return_value_def
  call_def act_def time_time_def block.simps

lemma tick_fields [simp]:
  "replies (tick L w) = replies w"
  "asked (tick L w) L' = (if L' = L then Suc (asked w L) else asked w L')"
  "driver_instance (tick L w) = driver_instance w"
  "is_logged_in (tick L w) = is_logged_in w"
  "session_file (tick L w) = session_file w"
  "in_frame (tick L w) = in_frame w"
  by (simp_all add: tick_def)

lemma answer_tick [simp]:
  "answer L' (tick L w) = (if L' = L then replies w L (Suc (asked w L)) else answer L' w)"
  by (simp add: answer_def)

subsection \<open>Outcome-indexed postconditions and invariants\<close>

text \<open>\<open>triple P m N E R\<close>: from a world in \<open>P\<close>, the program \<open>m\<close> ends in \<open>N\<close> when it
  completes, in \<open>E\<close> when it raises and in \<open>R\<close> when it returns. \<open>preserves J m\<close>: it ends
  in \<open>J\<close> however it ends.\<close>

fun after ::
  "(world \<Rightarrow> bool) \<Rightarrow> (world \<Rightarrow> bool) \<Rightarrow> (world \<Rightarrow> bool)
     \<Rightarrow> ('a, 'r) outcome \<times> world \<Rightarrow> bool" where
  "after N E R (Normal x, w) = N w"
| "after N E R (Raised e, w) = E w"
| "after N E R (Returned r, w) = R w"

lemma run_cases:
  obtains (Normal) x w' where "p = (Normal x, w')"
  | (Raised) e w' where "p = (Raised e, w')"
  | (Returned) r w' where "p = (Returned r, w')"
proof (cases p)
  case (Pair out w')
  then show ?thesis using that by (cases out) auto
qed

definition triple ::
  "(world \<Rightarrow> bool) \<Rightarrow> ('a, 'r) prog \<Rightarrow> (world \<Rightarrow> bool) \<Rightarrow> (world \<Rightarrow> bool)
     \<Rightarrow> (world \<Rightarrow> bool) \<Rightarrow> bool" where
  "triple P m N E R \<longleftrightarrow> (\<forall>w. P w \<longrightarrow> after N E R (m w))"

definition preserves :: "(world \<Rightarrow> bool) \<Rightarrow> ('a, 'r) prog \<Rightarrow> bool" where
  "preserves J m \<longleftrightarrow> triple J m J J J"

lemma after_same: "after J J J p = J (snd p)"
  by (cases p rule: run_cases) simp_all

lemma preserves_iff: "preserves J m \<longleftrightarrow> (\<forall>w. J w \<longrightarrow> J (snd (m w)))"
  by (simp add: preserves_def triple_def after_same)

lemma preservesD: "preserves J m \<Longrightarrow> J w \<Longrightarrow> J (snd (m w))"
  by (simp add: preserves_iff)

named_theorems preserves_intros

lemma triple_bind:
  assumes "triple P m M E R" and "\<And>x. triple M (f x) N E R"
  shows "triple P (bind m f) N E R"
  unfolding triple_def
proof (intro allI impI)
  fix w assume "P w"
  with assms(1) have a: "after M E R (m w)" by (simp add: triple_def)
  show "after N E R (bind m f w)"
  proof (cases "m w" rule: run_cases)
    case (Normal x w')
    with a assms(2) [of x] show ?thesis by (simp add: bind_def triple_def)
  next
    case (Raised e w')
    with a show ?thesis by (simp add: bind_def)
  next
    case (Returned r w')
    with a show ?thesis by (simp add: bind_def)
  qed
qed

lemma triple_seq:
  "triple P m M E R \<Longrightarrow> triple M n N E R \<Longrightarrow> triple P (seq m n) N E R"
  by (simp add: seq_def triple_bind)

lemma triple_try_except:
  assumes "triple P m N X R" and "\<And>e. triple X (h e) N E R"
  shows "triple P (try_except m h) N E R"
  unfolding triple_def
proof (intro allI impI)
  fix w assume "P w"
  with assms(1) have a: "after N X R (m w)" by (simp add: triple_def)
  show "after N E R (try_except m h w)"
  proof (cases "m w" rule: run_cases)
    case (Normal x w')
    with a show ?thesis by (simp add: try_except_def)
  next
    case (Raised e w')
    with a assms(2) [of e] show ?thesis by (simp add: try_except_def triple_def)
  next
    case (Returned r w')
    with a show ?thesis by (simp add: try_except_def)
  qed
qed

lemma triple_weaken:
  assumes "triple P' m N' E' R'" and "\<And>w. P w \<Longrightarrow> P' w" and "\<And>w. N' w \<Longrightarrow> N w"
    and "\<And>w. E' w \<Longrightarrow> E w" and "\<And>w. R' w \<Longrightarrow> R w"
  shows "triple P m N E R"
  unfolding triple_def
proof (intro allI impI)
  fix w assume "P w"
  with assms(1,2) have "after N' E' R' (m w)" by (simp add: triple_def)
  with assms(3-5) show "after N E R (m w)"
    by (cases "m w" rule: run_cases) simp_all
qed

lemma preserves_ret [preserves_intros]: "preserves J (ret x)"
  by (simp add: preserves_def triple_def ret_def)

lemma preserves_raise [preserves_intros]: "preserves J (raise e)"
  by (simp add: preserves_def triple_def raise_def)

lemma preserves_return_value [preserves_intros]: "preserves J (return_value r)"
  by (simp add: preserves_def triple_def return_value_def)

lemma preserves_bind [preserves_intros]:
  "preserves J m \<Longrightarrow> (\<And>x. preserves J (f x)) \<Longrightarrow> preserves J (bind m f)"
  unfolding preserves_def by (rule triple_bind)

lemma preserves_seq [preserves_intros]:
  "preserves J m \<Longrightarrow> preserves J n \<Longrightarrow> preserves J (seq m n)"
  unfolding preserves_def by (rule triple_seq)

lemma preserves_try_except [preserves_intros]:
  "preserves J m \<Longrightarrow> (\<And>e. preserves J (h e)) \<Longrightarrow> preserves J (try_except m h)"
  unfolding preserves_def by (rule triple_try_except)

lemma snd_fn_body: "snd (fn_body m w) = snd (m w)"
  by (cases "m w" rule: run_cases) (simp_all add: fn_body_def)

lemma preserves_fn_body [preserves_intros]: "preserves J m \<Longrightarrow> preserves J (fn_body m)"
  by (simp add: preserves_iff snd_fn_body)

lemma preserves_block_Nil [preserves_intros]: "preserves J (block [])"
  by (simp add: preserves_ret block.simps)

lemma preserves_block_Cons [preserves_intros]:
  "preserves J s \<Longrightarrow> preserves J (block ss) \<Longrightarrow> preserves J (block (s # ss))"
  by (simp add: preserves_seq block.simps)

lemma preserves_if [preserves_intros]:
  "(b \<Longrightarrow> preserves J m) \<Longrightarrow> (\<not> b \<Longrightarrow> preserves J n) \<Longrightarrow> preserves J (if b then m else n)"
  by simp

lemma preserves_case_option [preserves_intros]:
  "(x = None \<Longrightarrow> preserves J a) \<Longrightarrow> (\<And>d. x = Some d \<Longrightarrow> preserves J (b d))
     \<Longrightarrow> preserves J (case x of None \<Rightarrow> a | Some d \<Rightarrow> b d)"
  by (cases x) simp_all

lemma preserves_attempt [preserves_intros]: "preserves J m \<Longrightarrow> preserves J (attempt m)"
  by (simp add: attempt_def preserves_intros)

lemma preserves_first_to_succeed [preserves_intros]:
  "(\<And>m. m \<in> set ms \<Longrightarrow> preserves J m) \<Longrightarrow> preserves J (first_to_succeed ms)"
  by (induction ms) (auto intro!: preserves_intros)

text \<open>An invariant that no outside call disturbs.\<close>

definition tick_stable :: "nat set \<Rightarrow> (world \<Rightarrow> bool) \<Rightarrow> bool" where
  "tick_stable S J \<longleftrightarrow> (\<forall>L w. L \<notin> S \<longrightarrow> J w \<longrightarrow> J (tick L w))"

lemma preserves_call: "tick_stable S J \<Longrightarrow> L \<notin> S \<Longrightarrow> preserves J (call L)"
  by (auto simp: preserves_iff call_def tick_stable_def split: option.splits)

lemma preserves_act: "tick_stable S J \<Longrightarrow> L \<notin> S \<Longrightarrow> preserves J (act L)"
  by (simp add: act_def preserves_bind preserves_call preserves_ret)

lemma preserves_time_time: "tick_stable S J \<Longrightarrow> L \<notin> S \<Longrightarrow> preserves J (time_time L)"
  by (auto simp: preserves_iff time_time_def tick_stable_def)

lemma preserves_click_first_clickable:
  "tick_stable S J \<Longrightarrow> 608 \<notin> S \<Longrightarrow> 610 \<notin> S \<Longrightarrow> preserves J (click_first_clickable n)"
  by (induction n) (auto intro!: preserves_intros preserves_call preserves_act)

lemma preserves_check_for_back_to_home_page:
  assumes "tick_stable S J" and "S \<inter> {586, 587, 589, 597, 608, 610, 619, 624} = {}"
  shows "preserves J (check_for_back_to_home_page d)"
  unfolding check_for_back_to_home_page_def
  using assms(2)
  by (intro preserves_intros preserves_call [OF assms(1)] preserves_act [OF assms(1)]
      preserves_click_first_clickable [OF assms(1)]) auto

subsection \<open>Invariants of the steps and of the sequencer\<close>

definition avoids :: "nat set \<Rightarrow> nat \<Rightarrow> nat \<Rightarrow> bool" where
  "avoids S lo hi \<longleftrightarrow> (\<forall>L\<in>S. L < lo \<or> hi < L)"

lemma avoidsD: "avoids S lo hi \<Longrightarrow> lo \<le> L \<Longrightarrow> L \<le> hi \<Longrightarrow> L \<notin> S"
  by (auto simp: avoids_def)

lemma preserves_call_in:
  "tick_stable S J \<Longrightarrow> avoids S lo hi \<Longrightarrow> lo \<le> L \<Longrightarrow> L \<le> hi \<Longrightarrow> preserves J (call L)"
  by (rule preserves_call [OF _ avoidsD])

lemma preserves_act_in:
  "tick_stable S J \<Longrightarrow> avoids S lo hi \<Longrightarrow> lo \<le> L \<Longrightarrow> L \<le> hi \<Longrightarrow> preserves J (act L)"
  by (rule preserves_act [OF _ avoidsD])

definition frame_settable :: "bool \<Rightarrow> (world \<Rightarrow> bool) \<Rightarrow> bool" where
  "frame_settable b J \<longleftrightarrow> (\<forall>w. J w \<longrightarrow> J (w\<lparr>in_frame := b\<rparr>))"

lemma preserves_set_in_frame: "frame_settable b J \<Longrightarrow> preserves J (set_in_frame b)"
  by (simp add: preserves_iff set_in_frame_def frame_settable_def)

lemma preserves_switch_to_default_content_in:
  "tick_stable S J \<Longrightarrow> avoids S lo hi \<Longrightarrow> frame_settable False J \<Longrightarrow> lo \<le> L \<Longrightarrow> L \<le> hi
     \<Longrightarrow> preserves J (switch_to_default_content L)"
  by (simp add: switch_to_default_content_def preserves_seq preserves_call_in
      preserves_set_in_frame)

lemma preserves_switch_to_frame_in:
  "tick_stable S J \<Longrightarrow> avoids S lo hi \<Longrightarrow> frame_settable True J \<Longrightarrow> lo \<le> L \<Longrightarrow> L \<le> hi
     \<Longrightarrow> preserves J (switch_to_frame L)"
  by (simp add: switch_to_frame_def preserves_seq preserves_call_in preserves_set_in_frame)

lemma preserves_first_to_succeed_Nil [preserves_intros]: "preserves J (first_to_succeed [])"
  by (simp add: preserves_ret)

lemma preserves_first_to_succeed_Cons [preserves_intros]:
  "preserves J m \<Longrightarrow> preserves J (first_to_succeed ms) \<Longrightarrow> preserves J (first_to_succeed (m # ms))"
  by (simp add: preserves_intros)

lemma preserves_check_home:
  assumes "tick_stable S J" and "avoids S 586 624"
  shows "preserves J (check_for_back_to_home_page d)"
proof -
  note leaf = preserves_call_in [OF assms] preserves_act_in [OF assms]
  have "preserves J (click_first_clickable n)" for n
    by (induction n) (auto intro!: preserves_intros leaf)
  then show ?thesis
    unfolding check_for_back_to_home_page_def
    by (intro preserves_intros leaf) simp_all
qed

lemma preserves_step1:
  assumes "tick_stable S J" and "avoids S 653 657"
  shows "preserves J step1_dashboard_pendency"
  unfolding step1_dashboard_pendency_def
  by (intro preserves_intros preserves_act_in [OF assms]) simp_all

lemma preserves_step1_5_alert_popup:
  assumes "tick_stable S J" and "avoids S 695 1733"
  shows "preserves J step1_5_alert_popup"
  unfolding step1_5_alert_popup_def
  by (intro preserves_intros preserves_call_in [OF assms] preserves_act_in [OF assms]) simp_all

lemma preserves_step2_dealer_registration:
  assumes "tick_stable S J" and "avoids S 695 1733"
  shows "preserves J step2_dealer_registration"
  unfolding step2_dealer_registration_def
  by (intro preserves_intros preserves_call_in [OF assms] preserves_act_in [OF assms]) simp_all

lemma preserves_step3_new_registration:
  assumes "tick_stable S J" and "avoids S 695 1733"
  shows "preserves J step3_new_registration"
  unfolding step3_new_registration_def
  by (intro preserves_intros preserves_call_in [OF assms] preserves_act_in [OF assms]) simp_all

lemma preserves_step4_view_detail:
  assumes "tick_stable S J" and "avoids S 695 1733"
  shows "preserves J step4_view_detail"
  unfolding step4_view_detail_def
  by (intro preserves_intros preserves_call_in [OF assms] preserves_act_in [OF assms]) simp_all

lemma preserves_step5_first_approve:
  assumes "tick_stable S J" and "avoids S 695 1733"
  shows "preserves J step5_first_approve"
  unfolding step5_first_approve_def
  by (intro preserves_intros preserves_call_in [OF assms] preserves_act_in [OF assms]) simp_all

lemma preserves_step6_verification_checkbox:
  assumes "tick_stable S J" and "avoids S 695 1733"
  shows "preserves J step6_verification_checkbox"
  unfolding step6_verification_checkbox_def
  by (intro preserves_intros preserves_call_in [OF assms] preserves_act_in [OF assms]) simp_all

lemma preserves_step7_documents_tab:
  assumes "tick_stable S J" and "avoids S 695 1733"
  shows "preserves J step7_documents_tab"
  unfolding step7_documents_tab_def
  by (intro preserves_intros preserves_call_in [OF assms] preserves_act_in [OF assms]) simp_all

lemma preserves_step8_modify_view:
  assumes "tick_stable S J" and "avoids S 695 1733"
  shows "preserves J step8_modify_view"
  unfolding step8_modify_view_def
  by (intro preserves_intros preserves_call_in [OF assms] preserves_act_in [OF assms]) simp_all

lemma preserves_step10_close_popup:
  assumes "tick_stable S J" and "avoids S 695 1733"
  shows "preserves J step10_close_popup"
  unfolding step10_close_popup_def close_confirmation_popup_def
  by (intro preserves_intros preserves_call_in [OF assms] preserves_act_in [OF assms]) simp_all

lemma preserves_step11_modify_view_again:
  assumes "tick_stable S J" and "avoids S 695 1733"
  shows "preserves J step11_modify_view_again"
  unfolding step11_modify_view_again_def
  by (intro preserves_intros preserves_call_in [OF assms] preserves_act_in [OF assms]) simp_all

lemma preserves_step14_close_popup_again:
  assumes "tick_stable S J" and "avoids S 695 1733"
  shows "preserves J step14_close_popup_again"
  unfolding step14_close_popup_again_def close_confirmation_popup_def
  by (intro preserves_intros preserves_call_in [OF assms] preserves_act_in [OF assms]) simp_all

lemma preserves_step15_save_options:
  assumes "tick_stable S J" and "avoids S 695 1733"
  shows "preserves J step15_save_options"
  unfolding step15_save_options_def
  by (intro preserves_intros preserves_call_in [OF assms] preserves_act_in [OF assms]) simp_all

lemma preserves_step16_file_movement:
  assumes "tick_stable S J" and "avoids S 695 1733"
  shows "preserves J step16_file_movement"
  unfolding step16_file_movement_def
  by (intro preserves_intros preserves_call_in [OF assms] preserves_act_in [OF assms]) simp_all

lemma preserves_step17_modal_opened:
  assumes "tick_stable S J" and "avoids S 695 1733"
  shows "preserves J step17_modal_opened"
  unfolding step17_modal_opened_def
  by (intro preserves_intros preserves_call_in [OF assms] preserves_act_in [OF assms]) simp_all

lemma preserves_step18_proceed_to_next_seat:
  assumes "tick_stable S J" and "avoids S 695 1733"
  shows "preserves J step18_proceed_to_next_seat"
  unfolding step18_proceed_to_next_seat_def
  by (intro preserves_intros preserves_call_in [OF assms] preserves_act_in [OF assms]) simp_all

lemma preserves_step19_save:
  assumes "tick_stable S J" and "avoids S 695 1733"
  shows "preserves J step19_save"
  unfolding step19_save_def click_by_strategies_def
  by (intro preserves_intros preserves_call_in [OF assms] preserves_act_in [OF assms]) simp_all

lemma preserves_step20_confirm_yes:
  assumes "tick_stable S J" and "avoids S 695 1733"
  shows "preserves J step20_confirm_yes"
  unfolding step20_confirm_yes_def click_by_strategies_def
  by (intro preserves_intros preserves_call_in [OF assms] preserves_act_in [OF assms]) simp_all

lemma preserves_step9_close_modal:
  assumes "tick_stable S J" and "avoids S 695 1733" and "frame_settable False J"
  shows "preserves J step9_close_modal"
  unfolding step9_close_modal_def close_dms_modal_def
  by (intro preserves_intros preserves_call_in [OF assms(1,2)] preserves_act_in [OF assms(1,2)]
      preserves_switch_to_default_content_in [OF assms]) simp_all

lemma preserves_step13_close_modal_again:
  assumes "tick_stable S J" and "avoids S 695 1733" and "frame_settable False J"
  shows "preserves J step13_close_modal_again"
  unfolding step13_close_modal_again_def close_dms_modal_def
  by (intro preserves_intros preserves_call_in [OF assms(1,2)] preserves_act_in [OF assms(1,2)]
      preserves_switch_to_default_content_in [OF assms]) simp_all

lemma preserves_sweep_checkboxes:
  assumes "tick_stable S J" and "avoids S 695 1733"
  shows "preserves J (sweep_checkboxes n)"
  by (induction n)
     (auto intro!: preserves_intros preserves_call_in [OF assms] preserves_act_in [OF assms])

lemma preserves_step12_in_frame:
  assumes "tick_stable S J" and "avoids S 695 1733"
    and "frame_settable False J" and "frame_settable True J"
  shows "preserves J step12_in_frame"
  unfolding step12_in_frame_def
  by (intro preserves_intros preserves_call_in [OF assms(1,2)] preserves_act_in [OF assms(1,2)]
      preserves_switch_to_default_content_in [OF assms(1,2,3)]
      preserves_switch_to_frame_in [OF assms(1,2,4)] preserves_sweep_checkboxes [OF assms(1,2)])
     simp_all

text \<open>The handler of step 12 and the step as a whole, for an invariant that the body of
  the step keeps.\<close>

lemma preserves_step12_handled:
  assumes ts: "tick_stable S J" and av: "avoids S 695 1733" and avc: "avoids S 586 624"
    and f: "frame_settable False J"
    and body: "preserves J (step12_in_frame :: (unit, result) prog)"
    and retry: "retry_count < max_retries \<Longrightarrow> preserves J retry"
  shows "preserves J (step12_approved_checkboxes retry d retry_count max_retries)"
  unfolding step12_approved_checkboxes_def
  by (intro preserves_intros preserves_act_in [OF ts av] retry
      preserves_switch_to_default_content_in [OF ts av f] preserves_check_home [OF ts avc])
     (simp_all add: body)

lemma preserves_execute_remaining_steps_with:
  assumes ts: "tick_stable S J" and av: "avoids S 695 1733"
    and f: "frame_settable False J"
    and s12: "preserves J (step12_approved_checkboxes retry d retry_count max_retries)"
  shows "preserves J (execute_remaining_steps_with retry d retry_count max_retries)"
  unfolding execute_remaining_steps_with_def
  by (intro preserves_intros
      preserves_step1_5_alert_popup [OF ts av] preserves_step2_dealer_registration [OF ts av]
      preserves_step3_new_registration [OF ts av] preserves_step4_view_detail [OF ts av]
      preserves_step5_first_approve [OF ts av] preserves_step6_verification_checkbox [OF ts av]
      preserves_step7_documents_tab [OF ts av] preserves_step8_modify_view [OF ts av]
      preserves_step9_close_modal [OF ts av f] preserves_step10_close_popup [OF ts av]
      preserves_step11_modify_view_again [OF ts av]
      preserves_step13_close_modal_again [OF ts av f] preserves_step14_close_popup_again [OF ts av]
      preserves_step15_save_options [OF ts av] preserves_step16_file_movement [OF ts av]
      preserves_step17_modal_opened [OF ts av] preserves_step18_proceed_to_next_seat [OF ts av]
      preserves_step19_save [OF ts av] preserves_step20_confirm_yes [OF ts av])
     (simp_all add: s12)

lemma preserves_run_automation_internal_with:
  assumes ts: "tick_stable S J" and av: "avoids S 695 1733" and avc: "avoids S 586 624"
    and av1: "avoids S 653 657"
    and f: "frame_settable False J"
    and getter: "preserves J (get_driver_instance :: (driver option, result) prog)"
    and s12: "\<And>d. preserves J (step12_approved_checkboxes retry d retry_count max_retries)"
    and retry: "retry_count < max_retries \<Longrightarrow> preserves J retry"
  shows "preserves J (run_automation_internal_with retry retry_count max_retries)"
  unfolding run_automation_internal_with_def
  by (intro preserves_intros retry preserves_check_home [OF ts avc] preserves_step1 [OF ts av1]
      preserves_execute_remaining_steps_with [OF ts av f])
     (simp_all add: s12 getter)

lemma preserves_get_driver_instance: "preserves J get_driver_instance"
  by (simp add: preserves_iff get_driver_instance_def)

text \<open>An invariant that no outside call and no step disturbs holds after the sequencer,
  given that step 12 keeps it whenever the retry does.\<close>

lemma preserves_run_automation_internal_if:
  assumes ts: "tick_stable {} J" and f: "frame_settable False J"
    and s12: "\<And>retry d retry_count.
      (retry_count < max_retries \<Longrightarrow> preserves J retry) \<Longrightarrow>
      preserves J (step12_approved_checkboxes retry d retry_count max_retries)"
  shows "preserves J (run_automation_internal retry_count max_retries)"
proof (induction "max_retries - retry_count" arbitrary: retry_count rule: less_induct)
  case less
  have av: "avoids {} lo hi" for lo hi by (simp add: avoids_def)
  have retry: "preserves J (\<lambda>v. run_automation_internal (Suc retry_count) max_retries v)"
    if "retry_count < max_retries"
    using that by (intro less) simp
  have "preserves J (run_automation_internal_with
      (\<lambda>v. run_automation_internal (Suc retry_count) max_retries v) retry_count max_retries)"
    by (intro preserves_run_automation_internal_with [OF ts av av av f]
        preserves_get_driver_instance s12 retry)
  then show ?case
    by (simp add: preserves_iff run_automation_internal.simps [of retry_count max_retries])
qed

lemma preserves_run_automation_internal:
  assumes ts: "tick_stable {} J" and f: "frame_settable False J" and t: "frame_settable True J"
  shows "preserves J (run_automation_internal retry_count max_retries)"
proof -
  have av: "avoids {} lo hi" for lo hi by (simp add: avoids_def)
  show ?thesis
    by (intro preserves_run_automation_internal_if [OF ts f]
        preserves_step12_handled [OF ts av av f preserves_step12_in_frame [OF ts av f t]])
qed

subsection \<open>The frame of step 12\<close>

text \<open>The two calls that leave the frame in the handlers of step 12 go through.\<close>

definition restores_work :: "world \<Rightarrow> bool" where
  "restores_work w \<longleftrightarrow>
     (\<forall>n. raises (replies w 1292 n) = None) \<and> (\<forall>n. raises (replies w 1323 n) = None)"

definition same_browser :: "(nat \<Rightarrow> nat \<Rightarrow> reply) \<Rightarrow> world \<Rightarrow> bool" where
  "same_browser rs w \<longleftrightarrow> replies w = rs"

definition top_level :: "(nat \<Rightarrow> nat \<Rightarrow> reply) \<Rightarrow> world \<Rightarrow> bool" where
  "top_level rs w \<longleftrightarrow> replies w = rs \<and> \<not> in_frame w"

lemma same_browser_stable:
  "tick_stable {} (same_browser rs)" "frame_settable b (same_browser rs)"
  by (simp_all add: tick_stable_def frame_settable_def same_browser_def)

lemma top_level_stable:
  "tick_stable {} (top_level rs)" "frame_settable False (top_level rs)"
  by (simp_all add: tick_stable_def frame_settable_def top_level_def)

lemma avoids_empty: "avoids {} lo hi"
  by (simp add: avoids_def)

text \<open>Programs without a \<open>return\<close> statement.\<close>

definition never_returns :: "('a, 'r) prog \<Rightarrow> bool" where
  "never_returns m \<longleftrightarrow> (\<forall>w r w'. m w \<noteq> (Returned r, w'))"

named_theorems never_returns_intros

lemma never_returns_ret [never_returns_intros]: "never_returns (ret x)"
  by (simp add: never_returns_def ret_def)

lemma never_returns_call [never_returns_intros]: "never_returns (call L)"
  by (simp add: never_returns_def call_def split: option.splits)

lemma never_returns_set_in_frame [never_returns_intros]: "never_returns (set_in_frame b)"
  by (simp add: never_returns_def set_in_frame_def)

lemma never_returns_bind [never_returns_intros]:
  assumes "never_returns m" and "\<And>x. never_returns (f x)"
  shows "never_returns (bind m f)"
  unfolding never_returns_def
proof (intro allI)
  fix w r w'
  show "bind m f w \<noteq> (Returned r, w')"
    using assms by (cases "m w" rule: run_cases) (auto simp: bind_def never_returns_def)
qed

lemma never_returns_seq [never_returns_intros]:
  "never_returns m \<Longrightarrow> never_returns n \<Longrightarrow> never_returns (seq m n)"
  by (simp add: seq_def never_returns_bind)

lemma never_returns_try_except [never_returns_intros]:
  assumes "never_returns m" and "\<And>e. never_returns (h e)"
  shows "never_returns (try_except m h)"
  unfolding never_returns_def
proof (intro allI)
  fix w r w'
  show "try_except m h w \<noteq> (Returned r, w')"
    using assms by (cases "m w" rule: run_cases) (auto simp: try_except_def never_returns_def)
qed

lemma never_returns_act [never_returns_intros]: "never_returns (act L)"
  by (simp add: act_def never_returns_intros)

lemma never_returns_block_Nil [never_returns_intros]: "never_returns (block [])"
  by (simp add: block.simps never_returns_intros)

lemma never_returns_block_Cons [never_returns_intros]:
  "never_returns s \<Longrightarrow> never_returns (block ss) \<Longrightarrow> never_returns (block (s # ss))"
  by (simp add: block.simps never_returns_intros)

lemma never_returns_if [never_returns_intros]:
  "(b \<Longrightarrow> never_returns m) \<Longrightarrow> (\<not> b \<Longrightarrow> never_returns n) \<Longrightarrow> never_returns (if b then m else n)"
  by simp

lemma never_returns_sweep_checkboxes: "never_returns (sweep_checkboxes n)"
  by (induction n) (auto intro!: never_returns_intros)

lemma never_returns_step12_in_frame: "never_returns step12_in_frame"
  unfolding step12_in_frame_def switch_to_frame_def switch_to_default_content_def
  by (intro never_returns_intros never_returns_sweep_checkboxes)

lemma block_snoc_Normal:
  "block (ss @ [s]) w = (Normal x, w') \<Longrightarrow> \<exists>w1. s w1 = (Normal (), w')"
proof (induction ss arbitrary: w)
  case Nil
  then show ?case
    by (cases "s w" rule: run_cases) (auto simp: block.simps seq_def bind_def ret_def)
next
  case (Cons a ss)
  then show ?case
    by (cases "a w" rule: run_cases) (auto simp: block.simps seq_def bind_def)
qed

lemma switch_to_default_content_Normal:
  "switch_to_default_content L w1 = (Normal x, w') \<Longrightarrow> \<not> in_frame w'"
  by (auto simp: switch_to_default_content_def seq_def bind_def call_def set_in_frame_def
      split: option.splits)

lemma step12_in_frame_leaves:
  "triple (same_browser rs) (step12_in_frame :: (unit, 'r) prog)
     (top_level rs) (same_browser rs) (top_level rs)"
  unfolding triple_def
proof (intro allI impI)
  fix w assume sb: "same_browser rs w"
  have p: "preserves (same_browser rs) (step12_in_frame :: (unit, 'r) prog)"
    by (rule preserves_step12_in_frame
        [OF same_browser_stable(1) avoids_empty same_browser_stable(2) same_browser_stable(2)])
  from preservesD [OF p sb]
  have sb': "same_browser rs (snd ((step12_in_frame :: (unit, 'r) prog) w))" .
  show "after (top_level rs) (same_browser rs) (top_level rs)
          ((step12_in_frame :: (unit, 'r) prog) w)"
  proof (cases "(step12_in_frame :: (unit, 'r) prog) w" rule: run_cases)
    case (Normal x w')
    have "step12_in_frame =
        (block ([act 1185, switch_to_frame 1192, act 1204,
                 try_except (act 1213) (\<lambda>e. ret ()),
                 bind (call 1219) (\<lambda>approved_checkboxes.
                   sweep_checkboxes (count approved_checkboxes))]
                @ [switch_to_default_content 1282]) :: (unit, 'r) prog)"
      by (simp add: step12_in_frame_def)
    with Normal obtain w1
      where "(switch_to_default_content 1282 :: (unit, 'r) prog) w1 = (Normal (), w')"
      using block_snoc_Normal by metis
    then have "\<not> in_frame w'" by (rule switch_to_default_content_Normal)
    with sb' Normal show ?thesis by (simp add: top_level_def same_browser_def)
  next
    case (Raised e w')
    with sb' show ?thesis by simp
  next
    case (Returned r w')
    moreover have "never_returns (step12_in_frame :: (unit, 'r) prog)"
      by (rule never_returns_step12_in_frame)
    ultimately show ?thesis by (simp add: never_returns_def)
  qed
qed

lemma restore_establishes_top:
  assumes "restores_work w0" and "rs = replies w0" and "L = 1292 \<or> L = 1323"
  shows "triple (same_browser rs)
           (try_except (switch_to_default_content L) (\<lambda>e. ret ()) :: (unit, 'r) prog)
           (top_level rs) (top_level rs) (top_level rs)"
  using assms
  by (auto simp: triple_def same_browser_def top_level_def restores_work_def
      switch_to_default_content_def try_except_def seq_def bind_def call_def answer_def
      set_in_frame_def)

lemma triple_preserves: "preserves J m \<Longrightarrow> triple J m J J J"
  by (simp add: preserves_def)

lemma triple_return_value: "triple P (return_value r) N E P"
  by (simp add: triple_def return_value_def)

text \<open>Step 12 ends at the top-level document however it ends and wherever it starts,
  when a retry that starts at the top level ends there.\<close>

lemma step12_ends_top_level:
  fixes retry :: "(result, result) prog"
  assumes rw: "restores_work w0" and rs: "rs = replies w0"
    and retry: "retry_count < max_retries \<Longrightarrow> preserves (top_level rs) retry"
  shows "triple (same_browser rs)
           (step12_approved_checkboxes retry d retry_count max_retries)
           (top_level rs) (top_level rs) (top_level rs)"
  unfolding step12_approved_checkboxes_def
proof (rule triple_try_except [OF step12_in_frame_leaves])
  fix e
  note leaf = preserves_act_in [OF top_level_stable(1) avoids_empty [of 695 1733]]
  have timeout: "triple (same_browser rs)
      (block
         [try_except (switch_to_default_content 1292) (\<lambda>e. ret ()),
          try_except (act 1299) (\<lambda>e. ret ()),
          bind (check_for_back_to_home_page d) (\<lambda>at_home.
            if at_home then
              (if retry_count < max_retries then bind retry return_value else ret ())
            else ret ()),
          return_value checkboxes_not_found])
      (top_level rs) (top_level rs) (top_level rs)"
    unfolding block.simps(2) [of "try_except (switch_to_default_content 1292) (\<lambda>e. ret ())"]
  proof (rule triple_seq [OF restore_establishes_top [OF rw rs]])
    show "(1292::nat) = 1292 \<or> (1292::nat) = 1323" by simp
    show "triple (top_level rs)
       (block
         [try_except (act 1299) (\<lambda>e. ret ()),
          bind (check_for_back_to_home_page d) (\<lambda>at_home.
            if at_home then
              (if retry_count < max_retries then bind retry return_value else ret ())
            else ret ()),
          return_value checkboxes_not_found])
       (top_level rs) (top_level rs) (top_level rs)"
      by (intro triple_preserves preserves_intros leaf retry
          preserves_check_home [OF top_level_stable(1) avoids_empty]) simp_all
  qed
  have other: "triple (same_browser rs)
      (seq (try_except (switch_to_default_content 1323) (\<lambda>e. ret ()))
           (return_value
              (mk_result False
                 (''Error processing approvedStatus checkboxes: '' @ take 100 (str_of e))
                 ''checkbox_processing_error'')))
      (top_level rs) (top_level rs) (top_level rs)"
    by (rule triple_seq [OF restore_establishes_top [OF rw rs]])
       (simp_all add: triple_return_value)
  show "triple (same_browser rs)
      (if is_timeout e then
         block
           [try_except (switch_to_default_content 1292) (\<lambda>e. ret ()),
            try_except (act 1299) (\<lambda>e. ret ()),
            bind (check_for_back_to_home_page d) (\<lambda>at_home.
              if at_home then
                (if retry_count < max_retries then bind retry return_value else ret ())
              else ret ()),
            return_value checkboxes_not_found]
       else
         seq (try_except (switch_to_default_content 1323) (\<lambda>e. ret ()))
             (return_value
                (mk_result False
                   (''Error processing approvedStatus checkboxes: '' @ take 100 (str_of e))
                   ''checkbox_processing_error'')))
      (top_level rs) (top_level rs) (top_level rs)"
  proof (cases "is_timeout e")
    case True
    with timeout show ?thesis by (simp only: if_True)
  next
    case False
    with other show ?thesis by (simp only: if_False)
  qed
qed

lemma top_level_same_browser: "top_level rs w \<Longrightarrow> same_browser rs w"
  by (simp add: top_level_def same_browser_def)

lemma sequencer_keeps_top:
  assumes rw: "restores_work w0" and rs: "rs = replies w0"
  shows "preserves (top_level rs) (run_automation_internal retry_count max_retries)"
proof (rule preserves_run_automation_internal_if [OF top_level_stable])
  fix retry :: "(result, result) prog" and d retry_count
  assume "retry_count < max_retries \<Longrightarrow> preserves (top_level rs) retry"
  then have "triple (same_browser rs)
           (step12_approved_checkboxes retry d retry_count max_retries)
           (top_level rs) (top_level rs) (top_level rs)"
    by (rule step12_ends_top_level [OF rw rs])
  then show "preserves (top_level rs) (step12_approved_checkboxes retry d retry_count max_retries)"
    unfolding preserves_def by (rule triple_weaken) (simp_all add: top_level_same_browser)
qed


subsection \<open>The session store and the port probe in closed form\<close>

definition port_open :: "world \<Rightarrow> bool" where
  "port_open w \<longleftrightarrow> raises (answer 88 w) = None \<and> count (answer 88 w) = 0"

lemma is_chrome_debugging_available_eq:
  "is_chrome_debugging_available w = (Normal (port_open w), tick 88 w)"
  by (simp add: is_chrome_debugging_available_def port_open_def prog_defs split: option.splits)

lemma try_connect_eq:
  "try_connect_to_existing_chrome w =
     (if \<not> port_open w then (Normal None, tick 88 w)
      else if raises (answer 113 w) \<noteq> None then (Normal None, tick 113 (tick 88 w))
      else if raises (answer 117 w) = None
        then (Normal (Some (Driver 113)), tick 117 (tick 113 (tick 88 w)))
      else (Normal None, tick 123 (tick 117 (tick 113 (tick 88 w)))))"
  by (simp add: try_connect_to_existing_chrome_def is_chrome_debugging_available_eq prog_defs
      split: option.splits)

lemma save_session_info_eq:
  "save_session_info w =
     (Normal (),
      if raises (answer 37 w) = None
      then (tick 37 (tick 35 w))
             \<lparr>session_file := Some \<lparr>sd_has_driver = (driver_instance w \<noteq> None),
                                    sd_is_logged_in = is_logged_in w,
                                    sd_timestamp = Some (stamp (answer 35 w))\<rparr>\<rparr>
      else tick 37 (tick 35 w))"
  by (simp add: save_session_info_def get_driver_instance_def get_is_logged_in_def
      write_session_file_def prog_defs split: option.splits)

lemma clear_session_info_eq:
  "clear_session_info w =
     (Normal (),
      case session_file w of
        None \<Rightarrow> w
      | Some d \<Rightarrow> if raises (answer 63 w) = None then (tick 63 w)\<lparr>session_file := None\<rparr>
                  else tick 63 w)"
  by (simp add: clear_session_info_def read_session_file_def remove_session_file_def prog_defs
      split: option.splits)

subsection \<open>The recovery affordance and a browser without the dashboard\<close>

lemma check_home_absent:
  assumes "raises (answer 586 w) \<noteq> None" and "raises (answer 597 w) = None"
    and "count (answer 597 w) = 0"
  shows "check_for_back_to_home_page d w = (Normal False, tick 597 (tick 586 w))"
  using assms
  by (auto simp: check_for_back_to_home_page_def prog_defs split: option.splits)

lemma check_home_by_id:
  assumes "raises (answer 586 w) = None" and "raises (answer 587 w) = None"
    and "contains ''back to home'' (lower (str_val (answer 587 w)))"
    and "raises (answer 589 w) = None"
  shows "check_for_back_to_home_page d w = (Normal True, tick 589 (tick 587 (tick 586 w)))"
  using assms
  by (auto simp: check_for_back_to_home_page_def prog_defs split: option.splits)

text \<open>A browser on which the Dashboard Pendency button never shows and no recovery
  affordance either.\<close>

definition no_dashboard :: "world \<Rightarrow> bool" where
  "no_dashboard w \<longleftrightarrow>
     driver_instance w \<noteq> None
     \<and> (\<forall>n. raises (replies w 653 n) = Some (TimeoutException []))
     \<and> (\<forall>n. raises (replies w 586 n) \<noteq> None)
     \<and> (\<forall>n. raises (replies w 597 n) = None \<and> count (replies w 597 n) = 0)"

definition give_up :: "world \<Rightarrow> world" where
  "give_up w = tick 597 (tick 586 (tick 653 (tick 597 (tick 586 w))))"

lemma no_dashboard_give_up: "no_dashboard w \<Longrightarrow> no_dashboard (give_up w)"
  by (simp add: no_dashboard_def give_up_def)

lemma no_dashboard_run:
  assumes "no_dashboard w"
  shows "run_automation_internal 0 2 w = (Normal button_not_found, give_up w)"
proof -
  from assms obtain d where d: "driver_instance w = Some d"
    by (auto simp: no_dashboard_def)
  have c1: "check_for_back_to_home_page d w = (Normal False, tick 597 (tick 586 w))"
    using assms by (intro check_home_absent) (simp_all add: no_dashboard_def answer_def)
  have s1: "(step1_dashboard_pendency :: (unit, result) prog) (tick 597 (tick 586 w)) =
      (Raised (TimeoutException []), tick 653 (tick 597 (tick 586 w)))"
    using assms by (simp add: step1_dashboard_pendency_def no_dashboard_def answer_def prog_defs)
  have c2: "check_for_back_to_home_page d (tick 653 (tick 597 (tick 586 w))) =
      (Normal False, give_up w)"
    unfolding give_up_def
    using assms by (intro check_home_absent) (simp_all add: no_dashboard_def answer_def)
  show ?thesis
    by (subst run_automation_internal.simps)
       (simp add: run_automation_internal_with_def get_driver_instance_def d c1 s1 c2
          bind_def seq_def try_except_def fn_body_def return_value_def ret_def)
qed

subsection \<open>Concrete worlds and the status check with a live handle\<close>

lemma world_simps [simp]:
  "driver_instance (fresh_world rs) = None" "replies (fresh_world rs) = rs"
  "asked (fresh_world rs) = (\<lambda>L. 0)" "is_logged_in (fresh_world rs) = False"
  "session_file (fresh_world rs) = None" "in_frame (fresh_world rs) = False"
  by (simp_all add: fresh_world_def)

lemma ok_reply_simps [simp]:
  "raises ok_reply = None" "count ok_reply = 0" "str_val ok_reply = []" "flag ok_reply = False"
  "stamp ok_reply = 0"
  by (simp_all add: ok_reply_def)

lemma url_facts [simp]:
  "looks_logged_in home_url" "\<not> looks_logged_in VAHAN_URL"
  "url_left_login VAHAN_URL home_url"
  by (simp_all add: looks_logged_in_def url_left_login_def home_url_def VAHAN_URL_def lower_def)

lemma check_browser_status_logged_in:
  assumes "driver_instance w = Some d" and "raises (answer 275 w) = None"
    and "looks_logged_in (str_val (answer 275 w))"
  shows "check_browser_status w =
     (Normal \<lparr>browser_open = True, logged_in = True,
              report_message = ''Browser is open and user is logged in'',
              current_url = Some (str_val (answer 275 w))\<rparr>,
      snd (save_session_info ((tick 275 w)\<lparr>is_logged_in := True\<rparr>) :: (unit, unit) outcome \<times> world))"
  using assms
  by (simp add: check_browser_status_def get_driver_instance_def set_is_logged_in_def
      save_session_info_eq prog_defs)

lemma check_browser_status_logged_out:
  assumes "driver_instance w = Some d" and "raises (answer 275 w) = None"
    and "\<not> looks_logged_in (str_val (answer 275 w))"
  shows "check_browser_status w =
     (Normal \<lparr>browser_open = True, logged_in = False,
              report_message = ''Browser is open but user is not logged in'',
              current_url = Some (str_val (answer 275 w))\<rparr>,
      snd (save_session_info ((tick 275 w)\<lparr>is_logged_in := False\<rparr>) :: (unit, unit) outcome \<times> world))"
  using assms
  by (simp add: check_browser_status_def get_driver_instance_def set_is_logged_in_def
      save_session_info_eq prog_defs)

subsection \<open>The polling loop of the Login Gate\<close>

lemma quiet_step_shift:
  "tick_in_time st to (quiet_step w) i = tick_in_time st to w (Suc i)"
  "tick_read_fails (quiet_step w) i = tick_read_fails w (Suc i)"
  "tick_sees_login u (quiet_step w) i = tick_sees_login u w (Suc i)"
  "tick_quiet st to u (quiet_step w) i = tick_quiet st to u w (Suc i)"
  by (simp_all add: tick_in_time_def tick_read_fails_def tick_sees_login_def tick_quiet_def
      quiet_step_def)

lemma login_poll_quiet:
  assumes "tick_quiet st to u w 0"
  shows "login_poll st to u w = login_poll st to u (quiet_step w)"
  using assms
  by (subst login_poll.simps)
     (auto simp: tick_quiet_def tick_in_time_def tick_read_fails_def tick_sees_login_def
        quiet_step_def call_def answer_def split: option.splits)

lemma login_poll_timeout:
  assumes "\<not> tick_in_time st to w 0"
  shows "login_poll st to u w = Some (False, tick 329 w)"
  using assms by (subst login_poll.simps) (simp add: tick_in_time_def answer_def)

lemma login_poll_read_fails:
  assumes "tick_in_time st to w 0" and "tick_read_fails w 0"
  shows "login_poll st to u w = Some (False, tick 331 (tick 329 w))"
  using assms
  by (subst login_poll.simps)
     (auto simp: tick_in_time_def tick_read_fails_def call_def answer_def split: option.splits)

lemma login_poll_sees_login:
  assumes "tick_in_time st to w 0" and "tick_sees_login u w 0"
  shows "\<exists>w'. login_poll st to u w = Some (True, w')"
  using assms
  by (subst login_poll.simps)
     (auto simp: tick_in_time_def tick_sees_login_def call_def answer_def split: option.splits)

lemma login_poll_reached:
  "tick_reached st to u w i \<Longrightarrow>
     login_poll st to u w = login_poll st to u ((quiet_step ^^ i) w)
     \<and> (\<forall>k. tick_quiet st to u ((quiet_step ^^ i) w) k = tick_quiet st to u w (i + k))
     \<and> (\<forall>k. tick_in_time st to ((quiet_step ^^ i) w) k = tick_in_time st to w (i + k))
     \<and> (\<forall>k. tick_read_fails ((quiet_step ^^ i) w) k = tick_read_fails w (i + k))
     \<and> (\<forall>k. tick_sees_login u ((quiet_step ^^ i) w) k = tick_sees_login u w (i + k))"
proof (induction i)
  case 0
  then show ?case by simp
next
  case (Suc i)
  from Suc.prems have r: "tick_reached st to u w i" and q: "tick_quiet st to u w i"
    by (simp_all add: tick_reached_def)
  note ih = Suc.IH [OF r]
  from ih q have "tick_quiet st to u ((quiet_step ^^ i) w) 0" by simp
  then have "login_poll st to u ((quiet_step ^^ i) w) =
      login_poll st to u (quiet_step ((quiet_step ^^ i) w))"
    by (rule login_poll_quiet)
  with ih show ?case by (simp add: quiet_step_shift)
qed

text \<open>A result of the loop means that some tick was not quiet.\<close>

lemma login_poll_returns:
  assumes "login_poll st to u w = Some r"
  shows "\<exists>i. \<not> tick_quiet st to u w i"
proof (rule login_poll.raw_induct
    [where P = "\<lambda>st to u w r. \<exists>i. \<not> tick_quiet st to u w i", OF _ assms])
  fix f st to u w r
  assume IH: "\<And>st to u w r. f st to u w = Some r \<Longrightarrow> \<exists>i. \<not> tick_quiet st to u w i"
    and eq: "(if stamp (answer 329 w) - st < to then
        (case (call 331 :: (reply, unit) prog) (tick 329 w) of
           (Normal r, w2) \<Rightarrow>
             if url_left_login u (str_val r) then Some (True, w2)
             else
               (case (call 342 :: (reply, unit) prog) w2 of
                  (Normal m, w3) \<Rightarrow>
                    if 0 < count m then Some (True, w3)
                    else f st to u w3
                | (_, w3) \<Rightarrow> f st to u w3)
         | (_, w2) \<Rightarrow> Some (False, w2))
      else Some (False, tick 329 w)) = Some r"
  show "\<exists>i. \<not> tick_quiet st to u w i"
  proof (cases "tick_quiet st to u w 0")
    case False
    then show ?thesis by blast
  next
    case True
    with eq have "f st to u (quiet_step w) = Some r"
      by (auto simp: tick_quiet_def tick_in_time_def tick_read_fails_def tick_sees_login_def
          quiet_step_def call_def answer_def split: option.splits if_splits)
    then obtain i where "\<not> tick_quiet st to u (quiet_step w) i" using IH by blast
    then have "\<not> tick_quiet st to u w (Suc i)" by (simp add: quiet_step_shift)
    then show ?thesis by blast
  qed
qed

lemma first_unquiet:
  assumes "\<not> tick_quiet st to u w n"
  shows "\<exists>i. tick_reached st to u w i \<and> \<not> tick_quiet st to u w i"
proof -
  let ?i = "LEAST i. \<not> tick_quiet st to u w i"
  from assms have "\<not> tick_quiet st to u w ?i" by (rule LeastI)
  moreover have "tick_reached st to u w ?i"
    unfolding tick_reached_def using not_less_Least by blast
  ultimately show ?thesis by blast
qed

text \<open>The three ways the loop ends, at the first tick that is not quiet.\<close>

lemma login_poll_ends:
  assumes r: "tick_reached st to u w i"
  shows "\<not> tick_in_time st to w i \<Longrightarrow>
           login_poll st to u w = Some (False, tick 329 ((quiet_step ^^ i) w))"
    and "tick_in_time st to w i \<Longrightarrow> tick_read_fails w i \<Longrightarrow>
           login_poll st to u w = Some (False, tick 331 (tick 329 ((quiet_step ^^ i) w)))"
    and "tick_in_time st to w i \<Longrightarrow> tick_sees_login u w i \<Longrightarrow>
           \<exists>w'. login_poll st to u w = Some (True, w')"
  using login_poll_reached [OF r]
    login_poll_timeout [of st to "(quiet_step ^^ i) w" u]
    login_poll_read_fails [of st to "(quiet_step ^^ i) w" u]
    login_poll_sees_login [of st to "(quiet_step ^^ i) w" u]
  by simp_all

lemma login_poll_True_iff:
  "(\<exists>w'. login_poll st to u w = Some (True, w')) \<longleftrightarrow>
     (\<exists>i. tick_reached st to u w i \<and> tick_in_time st to w i \<and> tick_sees_login u w i)"
proof
  assume "\<exists>w'. login_poll st to u w = Some (True, w')"
  then obtain w' where t: "login_poll st to u w = Some (True, w')" ..
  from login_poll_returns [OF t] obtain n where "\<not> tick_quiet st to u w n" ..
  from first_unquiet [OF this] obtain i
    where r: "tick_reached st to u w i" and nq: "\<not> tick_quiet st to u w i" by blast
  show "\<exists>i. tick_reached st to u w i \<and> tick_in_time st to w i \<and> tick_sees_login u w i"
  proof (cases "tick_in_time st to w i")
    case False
    from login_poll_ends(1) [OF r False] t show ?thesis by simp
  next
    case True
    show ?thesis
    proof (cases "tick_read_fails w i")
      case rf: True
      from login_poll_ends(2) [OF r True rf] t show ?thesis by simp
    next
      case False
      with True nq have "tick_sees_login u w i" by (simp add: tick_quiet_def)
      with r True show ?thesis by blast
    qed
  qed
next
  assume "\<exists>i. tick_reached st to u w i \<and> tick_in_time st to w i \<and> tick_sees_login u w i"
  then show "\<exists>w'. login_poll st to u w = Some (True, w')"
    using login_poll_ends(3) by blast
qed

lemma entry_shift:
  "tick_in_time st to (tick 323 (tick 320 w)) i = tick_in_time st to w i"
  "tick_read_fails (tick 323 (tick 320 w)) i = tick_read_fails w i"
  "tick_sees_login u (tick 323 (tick 320 w)) i = tick_sees_login u w i"
  "tick_reached st to u (tick 323 (tick 320 w)) i = tick_reached st to u w i"
  by (simp_all add: tick_in_time_def tick_read_fails_def tick_sees_login_def tick_quiet_def
      tick_reached_def)

lemma wait_for_login_unfold:
  "wait_for_login (Some h) to w =
     (if raises (answer 323 w) = None
      then login_poll (stamp (answer 320 w)) to (str_val (answer 323 w)) (tick 323 (tick 320 w))
      else Some (False, tick 323 (tick 320 w)))"
  by (auto simp: wait_for_login_def call_def split: option.splits)

subsection \<open>The sequencer at the gate\<close>

lemma seq_NormalE:
  assumes "seq m n w = (Normal y, w')"
  obtains x w1 where "m w = (Normal x, w1)" and "n w1 = (Normal y, w')"
  using assms by (cases "m w" rule: run_cases) (auto simp: seq_def bind_def)

lemma gate_step:
  assumes "gate_finds_nothing wg"
  shows "step5_first_approve wg = (Returned no_approve_button, tick 866 (tick 856 wg))"
  using assms by (simp add: gate_finds_nothing_def step5_first_approve_def prog_defs)

lemma sequencer_at_the_gate:
  assumes d: "driver_instance w = Some d"
    and g: "to_the_gate d w = (Normal (), wg)"
    and n: "gate_finds_nothing wg"
  shows "run_automation_internal retry_count max_retries w =
           (Normal no_approve_button, tick 866 (tick 856 wg))"
proof -
  from g obtain b w1 w2 w3 w4 w5 where
    c: "(check_for_back_to_home_page d :: (bool, result) prog) w = (Normal b, w1)"
    and s1: "(step1_dashboard_pendency :: (unit, result) prog) w1 = (Normal (), w2)"
    and s15: "(step1_5_alert_popup :: (unit, result) prog) w2 = (Normal (), w3)"
    and s2: "(step2_dealer_registration :: (unit, result) prog) w3 = (Normal (), w4)"
    and s3: "(step3_new_registration :: (unit, result) prog) w4 = (Normal (), w5)"
    and s4: "(step4_view_detail :: (unit, result) prog) w5 = (Normal (), wg)"
    unfolding to_the_gate_def block.simps
    by (elim seq_NormalE) (auto simp: ret_def)
  note s5 = gate_step [OF n]
  show ?thesis
    by (subst run_automation_internal.simps)
       (simp add: run_automation_internal_with_def execute_remaining_steps_with_def
          get_driver_instance_def d c s1 s15 s2 s3 s4 s5
          bind_def seq_def try_except_def fn_body_def return_value_def block.simps)
qed

definition empty_table_world :: world where
  "empty_table_world =
     (fresh_world (\<lambda>L n. if L = 586 then ok_reply\<lparr>raises := Some (WebDriverException [])\<rparr>
                          else ok_reply))
       \<lparr>driver_instance := Some (Driver 181)\<rparr>"

lemma to_the_gate_empty_table:
  "fst (to_the_gate (Driver 181) empty_table_world) = Normal ()"
proof -
  have rep: "\<And>n. raises (replies empty_table_world 586 n) \<noteq> None"
    "\<And>L n. L \<noteq> 586 \<Longrightarrow> replies empty_table_world L n = ok_reply"
    by (simp_all add: empty_table_world_def)
  show ?thesis
    by (simp add: to_the_gate_def check_for_back_to_home_page_def step1_dashboard_pendency_def
        step1_5_alert_popup_def step2_dealer_registration_def step3_new_registration_def
        step4_view_detail_def prog_defs answer_def rep split: option.splits)
qed


lemma preserves_to_the_gate:
  assumes "tick_stable {} J"
  shows "preserves J (to_the_gate d)"
proof -
  have av: "avoids {} lo hi" for lo hi by (simp add: avoids_def)
  show ?thesis
    unfolding to_the_gate_def
    by (intro preserves_intros preserves_check_home [OF assms av] preserves_step1 [OF assms av]
        preserves_step1_5_alert_popup [OF assms av] preserves_step2_dealer_registration [OF assms av]
        preserves_step3_new_registration [OF assms av] preserves_step4_view_detail [OF assms av])
qed

subsection \<open>Recovery after a timeout\<close>

lemma check_home_total:
  "\<exists>b w'. (check_for_back_to_home_page d :: (bool, 'r) prog) w = (Normal b, w')"
proof -
  have "\<exists>b w'. fn_body (try_except m (\<lambda>e. return_value False)) w = (Normal b, w')"
    for m :: "(bool, bool) prog"
    by (cases "m w" rule: run_cases)
       (auto simp: fn_body_def try_except_def return_value_def)
  then show ?thesis by (simp add: check_for_back_to_home_page_def)
qed

lemma swallow_Normal:
  assumes "never_returns m"
  shows "try_except m (\<lambda>e. ret ()) w = (Normal (), snd (try_except m (\<lambda>e. ret ()) w))"
  using assms
  by (cases "m w" rule: run_cases) (auto simp: try_except_def ret_def never_returns_def)

lemma step1_counts:
  "asked (snd ((step1_dashboard_pendency :: (unit, 'r) prog) w)) 653 = Suc (asked w 653)"
  by (simp add: step1_dashboard_pendency_def prog_defs split: option.splits)

lemma fn_body_never_returns: "fn_body m w \<noteq> (Returned r, w')"
  by (cases "m w" rule: run_cases) (simp_all add: fn_body_def)

lemma run_automation_internal_never_returns:
  "run_automation_internal retry_count max_retries w \<noteq> (Returned r, w')"
  by (subst run_automation_internal.simps)
     (simp add: run_automation_internal_with_def fn_body_never_returns)

text \<open>One invocation with a timeout at step 1.\<close>

lemma recovery_at_step1:
  assumes d: "driver_instance w = Some d"
    and p: "recovery_point AtStep1 d w = Some v"
    and c: "(check_for_back_to_home_page d :: (bool, result) prog) v = (Normal b, w')"
  shows "retry_count < max_retries \<Longrightarrow> b \<Longrightarrow>
           run_automation_internal retry_count max_retries w =
           run_automation_internal (Suc retry_count) max_retries w'"
    and "retry_count < max_retries \<Longrightarrow> \<not> b \<Longrightarrow>
           run_automation_internal retry_count max_retries w = (Normal button_not_found, w')"
    and "\<not> retry_count < max_retries \<Longrightarrow>
           run_automation_internal retry_count max_retries w = (Normal button_not_found, v)"
proof -
  obtain b0 w1 where c0: "(check_for_back_to_home_page d :: (bool, result) prog) w = (Normal b0, w1)"
    using check_home_total by blast
  with p obtain e where s1: "(step1_dashboard_pendency :: (unit, result) prog) w1 = (Raised e, v)"
    and t: "is_timeout e"
    by (cases "(step1_dashboard_pendency :: (unit, result) prog) w1" rule: run_cases)
       (auto simp: seq_def bind_def split: if_splits)
  note defs = run_automation_internal_with_def get_driver_instance_def
    bind_def seq_def try_except_def fn_body_def return_value_def ret_def
  show "retry_count < max_retries \<Longrightarrow> b \<Longrightarrow>
           run_automation_internal retry_count max_retries w =
           run_automation_internal (Suc retry_count) max_retries w'"
    by (subst run_automation_internal.simps, simp add: defs d c0 s1 t c)
       (cases "run_automation_internal (Suc retry_count) max_retries w'" rule: run_cases,
        simp_all add: return_value_def run_automation_internal_never_returns)
  show "retry_count < max_retries \<Longrightarrow> \<not> b \<Longrightarrow>
           run_automation_internal retry_count max_retries w = (Normal button_not_found, w')"
    by (subst run_automation_internal.simps) (simp add: defs d c0 s1 t c)
  show "\<not> retry_count < max_retries \<Longrightarrow>
           run_automation_internal retry_count max_retries w = (Normal button_not_found, v)"
    by (subst run_automation_internal.simps) (simp add: defs d c0 s1 t)
qed


lemma to_step12_unfold:
  "to_step12 d =
     seq (seq (check_for_back_to_home_page d) (ret ()))
         (seq step1_dashboard_pendency steps_1_5_to_11)"
  by (simp add: to_step12_def steps_1_5_to_11_def block.simps)

lemma preserves_steps_1_5_to_11:
  assumes ts: "tick_stable S J" and av: "avoids S 695 1733" and f: "frame_settable False J"
  shows "preserves J steps_1_5_to_11"
  unfolding steps_1_5_to_11_def
  by (intro preserves_intros
      preserves_step1_5_alert_popup [OF ts av] preserves_step2_dealer_registration [OF ts av]
      preserves_step3_new_registration [OF ts av] preserves_step4_view_detail [OF ts av]
      preserves_step5_first_approve [OF ts av] preserves_step6_verification_checkbox [OF ts av]
      preserves_step7_documents_tab [OF ts av] preserves_step8_modify_view [OF ts av]
      preserves_step9_close_modal [OF ts av f] preserves_step10_close_popup [OF ts av]
      preserves_step11_modify_view_again [OF ts av])

lemma never_returns_switch_to_default_content:
  "never_returns (switch_to_default_content L)"
  unfolding switch_to_default_content_def by (intro never_returns_intros)

lemma leave_and_look_Normal: "leave_and_look w = (Normal (), snd (leave_and_look w))"
proof -
  have a: "(try_except (switch_to_default_content 1292) (\<lambda>e. ret ()) :: (unit, result) prog) w
      = (Normal (), snd ((try_except (switch_to_default_content 1292) (\<lambda>e. ret ()) :: (unit, result) prog) w))"
    by (rule swallow_Normal [OF never_returns_switch_to_default_content])
  have b: "(try_except (act 1299) (\<lambda>e. ret ()) :: (unit, result) prog) v
      = (Normal (), snd ((try_except (act 1299) (\<lambda>e. ret ()) :: (unit, result) prog) v))" for v
    by (rule swallow_Normal [OF never_returns_act])
  show ?thesis
    unfolding leave_and_look_def seq_def bind_def
    using b [of "snd ((try_except (switch_to_default_content 1292) (\<lambda>e. ret ()) :: (unit, result) prog) w)"]
    by (subst a, subst (2) a) simp
qed

lemma preserves_leave_and_look:
  assumes ts: "tick_stable S J" and av: "avoids S 695 1733" and f: "frame_settable False J"
  shows "preserves J leave_and_look"
  unfolding leave_and_look_def
  by (intro preserves_intros preserves_act_in [OF ts av]
      preserves_switch_to_default_content_in [OF ts av f]) simp_all

text \<open>What a timeout at step 12 looks like, piece by piece.\<close>

lemma step12_pointE:
  assumes "recovery_point AtStep12 d w = Some v"
  obtains b wa wb w1 e w2 where
    "(check_for_back_to_home_page d :: (bool, result) prog) w = (Normal b, wa)"
    and "(step1_dashboard_pendency :: (unit, result) prog) wa = (Normal (), wb)"
    and "steps_1_5_to_11 wb = (Normal (), w1)"
    and "(step12_in_frame :: (unit, result) prog) w1 = (Raised e, w2)"
    and "is_timeout e"
    and "leave_and_look w2 = (Normal (), v)"
proof -
  from assms obtain w1 where t: "to_step12 d w = (Normal (), w1)"
    and r: "(case (step12_in_frame :: (unit, result) prog) w1 of
             (Raised e, w2) \<Rightarrow> if is_timeout e then Some (snd (leave_and_look w2)) else None
           | (_, w2) \<Rightarrow> None) = Some v"
    by (cases "to_step12 d w" rule: run_cases) auto
  from r obtain e w2 where s12: "(step12_in_frame :: (unit, result) prog) w1 = (Raised e, w2)"
    and e: "is_timeout e" and v: "v = snd (leave_and_look w2)"
    by (cases "(step12_in_frame :: (unit, result) prog) w1" rule: run_cases)
       (auto split: if_splits)
  from t obtain b wa wb where
    "(check_for_back_to_home_page d :: (bool, result) prog) w = (Normal b, wa)"
    and "(step1_dashboard_pendency :: (unit, result) prog) wa = (Normal (), wb)"
    and "steps_1_5_to_11 wb = (Normal (), w1)"
    unfolding to_step12_unfold
    by (elim seq_NormalE) (auto simp: ret_def)
  moreover from v have "leave_and_look w2 = (Normal (), v)"
    using leave_and_look_Normal [of w2] by simp
  ultimately show ?thesis using s12 e that by blast
qed

lemma recovery_at_step12:
  assumes d: "driver_instance w = Some d"
    and p: "recovery_point AtStep12 d w = Some v"
    and c: "(check_for_back_to_home_page d :: (bool, result) prog) v = (Normal b, w')"
  shows "retry_count < max_retries \<Longrightarrow> b \<Longrightarrow>
           run_automation_internal (Suc retry_count) max_retries w' = (Normal r, w'') \<Longrightarrow>
           run_automation_internal retry_count max_retries w = (Normal r, w'')"
    and "\<not> (retry_count < max_retries \<and> b) \<Longrightarrow>
           run_automation_internal retry_count max_retries w = (Normal checkboxes_not_found, w')"
proof -
  from p obtain b0 wa wb w1 e w2 where
    c0: "(check_for_back_to_home_page d :: (bool, result) prog) w = (Normal b0, wa)"
    and s1: "(step1_dashboard_pendency :: (unit, result) prog) wa = (Normal (), wb)"
    and mid: "steps_1_5_to_11 wb = (Normal (), w1)"
    and s12: "(step12_in_frame :: (unit, result) prog) w1 = (Raised e, w2)"
    and e: "is_timeout e"
    and ll: "leave_and_look w2 = (Normal (), v)"
    by (rule step12_pointE)
  from mid obtain wc wd we wf wg wh wi wj wk wl where steps:
    "(step1_5_alert_popup :: (unit, result) prog) wb = (Normal (), wc)"
    "(step2_dealer_registration :: (unit, result) prog) wc = (Normal (), wd)"
    "(step3_new_registration :: (unit, result) prog) wd = (Normal (), we)"
    "(step4_view_detail :: (unit, result) prog) we = (Normal (), wf)"
    "step5_first_approve wf = (Normal (), wg)"
    "step6_verification_checkbox wg = (Normal (), wh)"
    "step7_documents_tab wh = (Normal (), wi)"
    "step8_modify_view wi = (Normal (), wj)"
    "step9_close_modal wj = (Normal (), wk)"
    "step10_close_popup wk = (Normal (), wl)"
    "step11_modify_view_again wl = (Normal (), w1)"
    unfolding steps_1_5_to_11_def block.simps
    by (elim seq_NormalE) (auto simp: ret_def)
  from ll obtain w2a where
    l1: "(try_except (switch_to_default_content 1292) (\<lambda>e. ret ()) :: (unit, result) prog) w2
           = (Normal (), w2a)"
    and l2: "(try_except (act 1299) (\<lambda>e. ret ()) :: (unit, result) prog) w2a = (Normal (), v)"
    unfolding leave_and_look_def by (elim seq_NormalE) auto
  note defs = run_automation_internal_with_def execute_remaining_steps_with_def
    step12_approved_checkboxes_def get_driver_instance_def
    bind_def seq_def fn_body_def return_value_def ret_def block.simps
    try_except_def [of step1_dashboard_pendency]
    try_except_def [of step12_in_frame]
    try_except_def [of "seq a m" for a m]
    try_except_def [of "bind a f" for a f]
  show "retry_count < max_retries \<Longrightarrow> b \<Longrightarrow>
           run_automation_internal (Suc retry_count) max_retries w' = (Normal r, w'') \<Longrightarrow>
           run_automation_internal retry_count max_retries w = (Normal r, w'')"
    by (subst run_automation_internal.simps) (simp add: defs d c0 s1 steps s12 e l1 l2 c)
  show "\<not> (retry_count < max_retries \<and> b) \<Longrightarrow>
           run_automation_internal retry_count max_retries w = (Normal checkboxes_not_found, w')"
    by (subst run_automation_internal.simps) (auto simp: defs d c0 s1 steps s12 e l1 l2 c)
qed


lemma counts_stable:
  "tick_stable {653} (\<lambda>w. asked w 653 = n)" "frame_settable b (\<lambda>w. asked w 653 = n)"
  "avoids {653} 586 624" "avoids {653} 695 1733"
  by (simp_all add: tick_stable_def frame_settable_def avoids_def)

lemma handle_stable:
  "tick_stable {} (\<lambda>w. driver_instance w = h)" "frame_settable b (\<lambda>w. driver_instance w = h)"
  by (simp_all add: tick_stable_def frame_settable_def)

lemma preserves_run: "preserves J m \<Longrightarrow> J w \<Longrightarrow> m w = (x, w') \<Longrightarrow> J w'"
  using preservesD [of J m w] by simp

lemma step1_counts_run:
  assumes "(step1_dashboard_pendency :: (unit, 'r) prog) w = (x, w')"
  shows "asked w' 653 = Suc (asked w 653)"
proof -
  have "asked (snd ((step1_dashboard_pendency :: (unit, 'r) prog) w)) 653 = Suc (asked w 653)"
    by (rule step1_counts)
  with assms show ?thesis by simp
qed

lemma check_home_counts:
  assumes "(check_for_back_to_home_page d :: (bool, result) prog) w = (x, w')"
  shows "asked w' 653 = asked w 653" and "driver_instance w' = driver_instance w"
proof -
  show "asked w' 653 = asked w 653"
    by (rule preserves_run [OF preserves_check_home [OF counts_stable(1,3)] _ assms]) simp
  show "driver_instance w' = driver_instance w"
    by (rule preserves_run [OF preserves_check_home [OF handle_stable(1) avoids_empty] _ assms])
       simp
qed

lemma recovery_point_keeps:
  assumes ts: "tick_stable {} J" and f: "frame_settable False J" and t: "frame_settable True J"
    and p: "recovery_point site d w = Some v" and J: "J w"
  shows "J v"
proof (cases site)
  case AtStep1
  have "preserves J (seq (check_for_back_to_home_page d) step1_dashboard_pendency :: (unit, result) prog)"
    by (intro preserves_intros preserves_check_home [OF ts avoids_empty]
        preserves_step1 [OF ts avoids_empty])
  from preservesD [OF this J] p AtStep1 show ?thesis
    by (cases "(seq (check_for_back_to_home_page d) step1_dashboard_pendency :: (unit, result) prog) w"
        rule: run_cases) (auto split: if_splits)
next
  case AtStep12
  with p have "recovery_point AtStep12 d w = Some v" by simp
  then obtain b wa wb w1 e w2 where
    c0: "(check_for_back_to_home_page d :: (bool, result) prog) w = (Normal b, wa)"
    and s1: "(step1_dashboard_pendency :: (unit, result) prog) wa = (Normal (), wb)"
    and mid: "steps_1_5_to_11 wb = (Normal (), w1)"
    and s12: "(step12_in_frame :: (unit, result) prog) w1 = (Raised e, w2)"
    and e: "is_timeout e"
    and ll: "leave_and_look w2 = (Normal (), v)"
    by (rule step12_pointE)
  note av = avoids_empty [of 695 1733]
  have "J wa"
    by (rule preserves_run [OF preserves_check_home [OF ts avoids_empty] J c0])
  then have "J wb"
    by (rule preserves_run [OF preserves_step1 [OF ts avoids_empty] _ s1])
  then have "J w1"
    by (rule preserves_run [OF preserves_steps_1_5_to_11 [OF ts av f] _ mid])
  then have "J w2"
    by (rule preserves_run [OF preserves_step12_in_frame [OF ts av f t] _ s12])
  then show ?thesis
    by (rule preserves_run [OF preserves_leave_and_look [OF ts av f] _ ll])
qed

lemma recovery_point_counts:
  assumes p: "recovery_point site d w = Some v"
  shows "asked v 653 = Suc (asked w 653)"
proof (cases site)
  case AtStep1
  obtain b wa where c0: "(check_for_back_to_home_page d :: (bool, result) prog) w = (Normal b, wa)"
    using check_home_total by blast
  from check_home_counts(1) [OF c0] have a: "asked wa 653 = asked w 653" .
  from p AtStep1 c0 obtain e where "(step1_dashboard_pendency :: (unit, result) prog) wa = (Raised e, v)"
    by (cases "(step1_dashboard_pendency :: (unit, result) prog) wa" rule: run_cases)
       (auto simp: seq_def bind_def split: if_splits)
  from step1_counts_run [OF this] a show ?thesis by simp
next
  case AtStep12
  with p have "recovery_point AtStep12 d w = Some v" by simp
  then obtain b wa wb w1 e w2 where
    c0: "(check_for_back_to_home_page d :: (bool, result) prog) w = (Normal b, wa)"
    and s1: "(step1_dashboard_pendency :: (unit, result) prog) wa = (Normal (), wb)"
    and mid: "steps_1_5_to_11 wb = (Normal (), w1)"
    and s12: "(step12_in_frame :: (unit, result) prog) w1 = (Raised e, w2)"
    and e: "is_timeout e"
    and ll: "leave_and_look w2 = (Normal (), v)"
    by (rule step12_pointE)
  note ts = counts_stable(1) and av = counts_stable(4) and f = counts_stable(2)
  from check_home_counts(1) [OF c0] have a: "asked wa 653 = asked w 653" .
  from step1_counts_run [OF s1] a have "asked wb 653 = Suc (asked w 653)" by simp
  then have "asked w1 653 = Suc (asked w 653)"
    by (rule preserves_run [OF preserves_steps_1_5_to_11 [OF ts av f] _ mid])
  then have "asked w2 653 = Suc (asked w 653)"
    by (rule preserves_run [OF preserves_step12_in_frame [OF ts av f f] _ s12])
  then show ?thesis
    by (rule preserves_run [OF preserves_leave_and_look [OF ts av f] _ ll])
qed

lemma recovery_step:
  assumes d: "driver_instance w = Some d"
    and p: "recovery_point site d w = Some v"
    and c: "(check_for_back_to_home_page d :: (bool, result) prog) v = (Normal b, w')"
  shows "retry_count < max_retries \<Longrightarrow> b \<Longrightarrow>
           run_automation_internal (Suc retry_count) max_retries w' = (Normal r, w'') \<Longrightarrow>
           run_automation_internal retry_count max_retries w = (Normal r, w'')"
    and "retry_count < max_retries \<Longrightarrow> \<not> b \<Longrightarrow>
           run_automation_internal retry_count max_retries w = (Normal (fatal_result site), w')"
    and "\<not> retry_count < max_retries \<Longrightarrow>
           fst (run_automation_internal retry_count max_retries w) = Normal (fatal_result site)
           \<and> asked (snd (run_automation_internal retry_count max_retries w)) 653 = asked v 653"
proof -
  show "retry_count < max_retries \<Longrightarrow> b \<Longrightarrow>
           run_automation_internal (Suc retry_count) max_retries w' = (Normal r, w'') \<Longrightarrow>
           run_automation_internal retry_count max_retries w = (Normal r, w'')"
    using recovery_at_step1(1) [OF d _ c] recovery_at_step12(1) [OF d _ c] p
    by (cases site) auto
  show "retry_count < max_retries \<Longrightarrow> \<not> b \<Longrightarrow>
           run_automation_internal retry_count max_retries w = (Normal (fatal_result site), w')"
    using recovery_at_step1(2) [OF d _ c] recovery_at_step12(2) [OF d _ c] p
    by (cases site) auto
  show "\<not> retry_count < max_retries \<Longrightarrow>
           fst (run_automation_internal retry_count max_retries w) = Normal (fatal_result site)
           \<and> asked (snd (run_automation_internal retry_count max_retries w)) 653 = asked v 653"
    using recovery_at_step1(3) [OF d _ c] recovery_at_step12(2) [OF d _ c] p
      check_home_counts(1) [OF c]
    by (cases site) auto
qed

lemma recovery_budget_spent:
  assumes "driver_instance w = Some d"
    and "timeouts_with_affordance site d k n w"
    and "retry_count + n = max_retries"
  shows "fst (run_automation_internal retry_count max_retries w) = Normal (fatal_result site)
       \<and> asked (snd (run_automation_internal retry_count max_retries w)) 653
           = asked w 653 + 1 + min k n"
  using assms
proof (induction n arbitrary: w k retry_count)
  case 0
  then obtain v where p: "recovery_point site d w = Some v" by auto
  obtain b w' where c: "(check_for_back_to_home_page d :: (bool, result) prog) v = (Normal b, w')"
    using check_home_total by blast
  from 0 have "\<not> retry_count < max_retries" by simp
  from recovery_step(3) [OF "0.prems"(1) p c this] recovery_point_counts [OF p]
  show ?case by simp
next
  case (Suc n)
  from Suc.prems(2) obtain v where p: "recovery_point site d w = Some v"
    by (auto split: option.splits)
  obtain b w' where c: "(check_for_back_to_home_page d :: (bool, result) prog) v = (Normal b, w')"
    using check_home_total by blast
  from Suc.prems(2) p c have b: "b = (0 < k)"
    and rest: "b \<Longrightarrow> timeouts_with_affordance site d (k - 1) n w'"
    by auto
  from Suc.prems(3) have lt: "retry_count < max_retries" by simp
  note cnt = recovery_point_counts [OF p] check_home_counts(1) [OF c]
  show ?case
  proof (cases b)
    case True
    have "driver_instance v = Some d"
      by (rule recovery_point_keeps [OF handle_stable(1) handle_stable(2) handle_stable(2) p])
         (rule Suc.prems(1))
    with check_home_counts(2) [OF c] have d': "driver_instance w' = Some d" by simp
    from Suc.prems(3) have "Suc retry_count + n = max_retries" by simp
    from Suc.IH [OF d' rest [OF True] this]
    have ih: "fst (run_automation_internal (Suc retry_count) max_retries w') = Normal (fatal_result site)"
      "asked (snd (run_automation_internal (Suc retry_count) max_retries w')) 653
           = asked w' 653 + 1 + min (k - 1) n"
      by simp_all
    from ih(1) have "run_automation_internal (Suc retry_count) max_retries w'
        = (Normal (fatal_result site), snd (run_automation_internal (Suc retry_count) max_retries w'))"
      by (simp add: prod_eq_iff)
    from recovery_step(1) [OF Suc.prems(1) p c lt True this] ih(2) cnt True b
    show ?thesis by (cases k) simp_all
  next
    case False
    from recovery_step(2) [OF Suc.prems(1) p c lt False] cnt False b
    show ?thesis by simp
  qed
qed



subsection \<open>The handle and the flag in the states the engine reaches\<close>

lemma flag_needs_handle_stable:
  "tick_stable {} flag_needs_handle" "frame_settable b flag_needs_handle"
  by (simp_all add: tick_stable_def frame_settable_def flag_needs_handle_def)

lemma flag_off_stable:
  "tick_stable {} (\<lambda>w. \<not> is_logged_in w)" "frame_settable b (\<lambda>w. \<not> is_logged_in w)"
  by (simp_all add: tick_stable_def frame_settable_def)

lemma check_browser_status_globals:
  assumes "flag_needs_handle w"
  shows "flag_needs_handle (snd ((check_browser_status :: (status_report, 'r) prog) w))
       \<and> (\<exists>st. fst ((check_browser_status :: (status_report, 'r) prog) w) = Normal st
              \<and> (browser_open st \<longleftrightarrow>
                   driver_instance (snd ((check_browser_status :: (status_report, 'r) prog) w)) \<noteq> None))"
proof (cases "driver_instance w")
  case None
  then show ?thesis
    using assms
    by (simp add: check_browser_status_def is_chrome_debugging_available_eq
        try_connect_eq save_session_info_eq clear_session_info_eq flag_needs_handle_def
        get_driver_instance_def set_driver_instance_def set_is_logged_in_def
        prog_defs split: option.splits)
next
  case (Some d)
  then show ?thesis
    by (simp add: check_browser_status_def save_session_info_eq clear_session_info_eq
        flag_needs_handle_def get_driver_instance_def set_driver_instance_def
        set_is_logged_in_def prog_defs split: option.splits)
qed

lemma login_poll_keeps:
  assumes ts: "tick_stable {} J"
    and run: "login_poll st to u w = Some r"
  shows "J w \<longrightarrow> J (snd r)"
proof (rule login_poll.raw_induct
    [where P = "\<lambda>st to u w r. J w \<longrightarrow> J (snd r)", OF _ run])
  fix f st to u w r
  assume IH: "\<And>st to u w r. f st to u w = Some r \<Longrightarrow> J w \<longrightarrow> J (snd r)"
    and eq: "(if stamp (answer 329 w) - st < to then
        (case (call 331 :: (reply, unit) prog) (tick 329 w) of
           (Normal r, w2) \<Rightarrow>
             if url_left_login u (str_val r) then Some (True, w2)
             else
               (case (call 342 :: (reply, unit) prog) w2 of
                  (Normal m, w3) \<Rightarrow>
                    if 0 < count m then Some (True, w3)
                    else f st to u w3
                | (_, w3) \<Rightarrow> f st to u w3)
         | (_, w2) \<Rightarrow> Some (False, w2))
      else Some (False, tick 329 w)) = Some r"
  have t: "J v \<Longrightarrow> J (tick L v)" for L v
    using ts by (simp add: tick_stable_def)
  show "J w \<longrightarrow> J (snd r)"
  proof
    assume J: "J w"
    from eq J t IH show "J (snd r)"
      by (auto simp: call_def split: option.splits if_splits)
  qed
qed

lemma wait_for_login_keeps:
  assumes ts: "tick_stable {} J" and J: "J w"
    and run: "wait_for_login d to w = Some (b, w')"
  shows "J w'"
proof -
  have t: "J v \<Longrightarrow> J (tick L v)" for L v
    using ts by (simp add: tick_stable_def)
  show ?thesis
  proof (cases d)
    case None
    with run J t show ?thesis by (auto simp: wait_for_login_def)
  next
    case (Some h)
    show ?thesis
    proof (cases "raises (answer 323 w) = None")
      case True
      with run Some have "login_poll (stamp (answer 320 w)) to (str_val (answer 323 w))
          (tick 323 (tick 320 w)) = Some (b, w')"
        by (simp add: wait_for_login_unfold)
      from login_poll_keeps [OF ts this] J t show ?thesis by simp
    next
      case False
      with run Some J t show ?thesis by (auto simp: wait_for_login_unfold)
    qed
  qed
qed


lemma bind_NormalE:
  assumes "bind m f w = (Normal y, w')"
  obtains x w1 where "m w = (Normal x, w1)" and "f x w1 = (Normal y, w')"
  using assms by (cases "m w" rule: run_cases) (auto simp: bind_def)

lemma try_except_NormalE:
  assumes "try_except m h w = (Normal y, w')"
  obtains "m w = (Normal y, w')"
  | e w1 where "m w = (Raised e, w1)" and "h e w1 = (Normal y, w')"
  using assms by (cases "m w" rule: run_cases) (auto simp: try_except_def)

lemma preserves_try_versions:
  "tick_stable {} J \<Longrightarrow> preserves J (try_versions vs)"
  by (induction vs) (auto intro!: preserves_intros preserves_call)

lemma preserves_create_vahan_driver:
  assumes ts: "tick_stable {} J"
  shows "preserves J create_vahan_driver"
  unfolding create_vahan_driver_def try_connect_to_existing_chrome_def
    is_chrome_debugging_available_def
  by (intro preserves_intros preserves_call [OF ts] preserves_act [OF ts]
      preserves_try_versions [OF ts]) simp_all

lemma preserves_navigate_once:
  assumes ts: "tick_stable {} J"
  shows "preserves J navigate_once"
  unfolding navigate_once_def
  by (intro preserves_intros preserves_call [OF ts] preserves_act [OF ts]) simp_all

lemma navigate_keeps:
  assumes ts: "tick_stable {} J"
  shows "J w \<Longrightarrow> J (snd (navigate retry_count w))"
proof (induction retry_count w rule: navigate.induct)
  case (1 retry_count w)
  note once = preserves_run [OF preserves_navigate_once [OF ts] "1.prems"]
  show ?case
  proof (cases "navigate_once w :: (bool, result) outcome \<times> world" rule: run_cases)
    case (Normal page_loaded w')
    from once [OF Normal] have "J w'" .
    with Normal "1.IH" [of "Normal page_loaded" w' page_loaded] "1.prems" show ?thesis
      by (subst navigate.simps) auto
  next
    case (Raised e w')
    with once [OF Raised] "1.prems" show ?thesis by (subst navigate.simps) auto
  next
    case (Returned r w')
    with once [OF Returned] "1.prems" show ?thesis by (subst navigate.simps) auto
  qed
qed

lemma preserves_navigate: "tick_stable {} J \<Longrightarrow> preserves J (navigate retry_count)"
  by (simp add: preserves_iff navigate_keeps)

lemma preserves_flag_off_open_vahan_page:
  "preserves (\<lambda>w. \<not> is_logged_in w) open_vahan_page"
proof -
  note ts = flag_off_stable(1)
  have set: "preserves (\<lambda>w. \<not> is_logged_in w) (set_driver_instance h)" for h
    by (simp add: preserves_iff set_driver_instance_def)
  have clear: "preserves (\<lambda>w. \<not> is_logged_in w) clear_session_info"
    by (simp add: preserves_iff clear_session_info_eq split: option.splits)
  show ?thesis
    unfolding open_vahan_page_def
    by (intro preserves_intros preserves_create_vahan_driver [OF ts] preserves_navigate [OF ts]
        preserves_act [OF ts] preserves_get_driver_instance set clear) simp_all
qed

lemma open_vahan_page_stores_handle:
  assumes "open_vahan_page w = (Normal d, w2)"
  shows "driver_instance w2 = Some d"
  using assms unfolding open_vahan_page_def
proof (cases rule: try_except_NormalE)
  case 1
  then obtain x wa where body: "seq (set_driver_instance (Some x))
        (bind (navigate 0) (\<lambda>page_loaded.
           if \<not> page_loaded then
             seq (bind get_driver_instance (\<lambda>handle.
                    case handle of
                      Some d \<Rightarrow>
                        try_except (seq (act 498) (set_driver_instance None)) (\<lambda>e. ret ())
                    | None \<Rightarrow> ret ()))
                 (return_value
                    (mk_result False
                       ''Failed to connect to Vahan website. Please check your internet connection and try again. See logs for details.''
                       ''connection_error''))
           else ret x)) wa = (Normal d, w2)"
    by (elim bind_NormalE)
  then obtain wc page_loaded where
    n: "navigate 0 (wa\<lparr>driver_instance := Some x\<rparr>) = (Normal page_loaded, wc)"
    and r: "(if \<not> page_loaded then
             seq (bind get_driver_instance (\<lambda>handle.
                    case handle of
                      Some d \<Rightarrow>
                        try_except (seq (act 498) (set_driver_instance None)) (\<lambda>e. ret ())
                    | None \<Rightarrow> ret ()))
                 (return_value
                    (mk_result False
                       ''Failed to connect to Vahan website. Please check your internet connection and try again. See logs for details.''
                       ''connection_error''))
           else ret x) wc = (Normal d, w2)"
    by (elim seq_NormalE bind_NormalE) (auto simp: set_driver_instance_def)
  from r have "page_loaded \<and> d = x \<and> w2 = wc"
    by (cases page_loaded) (auto simp: ret_def return_value_def elim!: seq_NormalE)
  moreover have "driver_instance wc = Some x"
    by (rule preserves_run [OF preserves_navigate [OF handle_stable(1)] _ n]) simp
  ultimately show ?thesis by simp
next
  case (2 e w1)
  then show ?thesis by (auto simp: return_value_def elim!: seq_NormalE)
qed

lemma start_vahan_browser_globals:
  assumes inv: "flag_needs_handle w" and run: "start_vahan_browser w = Some (res, w')"
  shows "flag_needs_handle w'"
proof -
  let ?c = "(check_browser_status :: (status_report, result) prog) w"
  obtain out1 w1 where c: "?c = (out1, w1)" by (cases ?c)
  with check_browser_status_globals [OF inv, where 'r = result]
  obtain st where st: "?c = (Normal st, w1)"
    and inv1: "flag_needs_handle w1"
    and bo: "browser_open st \<longleftrightarrow> driver_instance w1 \<noteq> None"
    by auto
  consider (reuse) "browser_open st" "logged_in st"
    | (login) "browser_open st" "\<not> logged_in st"
    | (fresh) "\<not> browser_open st" by blast
  then show ?thesis
  proof cases
    case reuse
    with run st inv1 show ?thesis by (simp add: start_vahan_browser_def)
  next
    case login
    with run st obtain b w2 where
      wl: "wait_for_login (driver_instance w1) 300 w1 = Some (b, w2)"
      and w': "w' = w2\<lparr>is_logged_in := True\<rparr> \<or> w' = w2"
      by (auto simp: start_vahan_browser_def split: option.splits if_splits)
    have "driver_instance w2 = driver_instance w1"
      by (rule wait_for_login_keeps [OF handle_stable(1) _ wl]) simp
    with bo login w' show ?thesis by (auto simp: flag_needs_handle_def)
  next
    case fresh
    with bo inv1 have off: "\<not> is_logged_in w1" by (simp add: flag_needs_handle_def)
    show ?thesis
    proof (cases "open_vahan_page w1" rule: run_cases)
      case (Normal d w2)
      with run st fresh obtain b w3 where
        wl: "wait_for_login (Some d) 300 w2 = Some (b, w3)"
        and w': "w' = snd ((save_session_info :: (unit, result) prog) (w3\<lparr>is_logged_in := True\<rparr>))
                 \<or> w' = w3"
        by (auto simp: start_vahan_browser_def split: option.splits if_splits)
      have "driver_instance w3 = Some d"
        by (rule wait_for_login_keeps [OF handle_stable(1) _ wl])
           (rule open_vahan_page_stores_handle [OF Normal])
      with w' show ?thesis
        by (auto simp: flag_needs_handle_def save_session_info_eq split: if_splits)
    next
      case (Raised e w2)
      from preserves_run [OF preserves_flag_off_open_vahan_page off Raised]
      have "\<not> is_logged_in w2" .
      moreover from run st fresh Raised have "w' = w2" by (simp add: start_vahan_browser_def)
      ultimately show ?thesis by (simp add: flag_needs_handle_def)
    next
      case (Returned r w2)
      from preserves_run [OF preserves_flag_off_open_vahan_page off Returned]
      have "\<not> is_logged_in w2" .
      moreover from run st fresh Returned have "w' = w2" by (simp add: start_vahan_browser_def)
      ultimately show ?thesis by (simp add: flag_needs_handle_def)
    qed
  qed
qed

lemma automation_loop_keeps:
  assumes ts: "tick_stable {} J" and f: "frame_settable False J" and t: "frame_settable True J"
    and run: "automation_loop processed error_count w = Some r"
  shows "J w \<longrightarrow> J (snd r)"
proof (rule automation_loop.raw_induct
    [where P = "\<lambda>processed error_count w r. J w \<longrightarrow> J (snd r)", OF _ run])
  fix f processed error_count w r
  assume IH: "\<And>processed error_count w r. f processed error_count w = Some r \<Longrightarrow> J w \<longrightarrow> J (snd r)"
    and eq: "(case run_automation_internal 0 2 w of
        (Normal r, w') \<Rightarrow>
          if success r then f (Suc processed) 0 w'
          else if status r = ''no_approve_button'' then Some (Normal (all_processed processed), w')
          else if 3 \<le> Suc error_count then Some (Normal (stopped_after_errors processed r), w')
          else f processed (Suc error_count) w'
      | (Raised e, w') \<Rightarrow> Some (Raised e, w')
      | (Returned r, w') \<Rightarrow> Some (Returned r, w')) = Some r"
  show "J w \<longrightarrow> J (snd r)"
  proof
    assume "J w"
    from preservesD [OF preserves_run_automation_internal [OF ts f t] this, of 0 2]
    have J': "J (snd (run_automation_internal 0 2 w))" .
    show "J (snd r)"
    proof (cases "run_automation_internal 0 2 w" rule: run_cases)
      case (Normal x w')
      with J' have "J w'" by simp
      with eq Normal IH show ?thesis by (auto split: if_splits)
    next
      case (Raised e w')
      with J' eq show ?thesis by auto
    next
      case (Returned x w')
      with J' eq show ?thesis by auto
    qed
  qed
qed

lemma run_automation_globals:
  assumes inv: "flag_needs_handle w" and run: "run_automation w = Some (res, w')"
  shows "flag_needs_handle w'"
proof -
  let ?c = "(check_browser_status :: (status_report, result) prog) w"
  obtain out1 w1 where c: "?c = (out1, w1)" by (cases ?c)
  with check_browser_status_globals [OF inv, where 'r = result]
  obtain st where st: "?c = (Normal st, w1)"
    and inv1: "flag_needs_handle w1"
    by auto
  show ?thesis
  proof (cases "\<not> browser_open st \<or> \<not> logged_in st")
    case True
    with run st inv1 show ?thesis by (auto simp: run_automation_def split: if_splits)
  next
    case False
    with run st have "automation_loop 0 0 w1 = Some (res, w')"
      by (simp add: run_automation_def)
    from automation_loop_keeps [OF flag_needs_handle_stable(1) flag_needs_handle_stable(2)
        flag_needs_handle_stable(2) this] inv1
    show ?thesis by simp
  qed
qed

lemma close_vahan_browser_eq:
  "close_vahan_browser w =
     (case driver_instance w of
        None \<Rightarrow> (Normal True, snd (clear_session_info w :: (unit, unit) outcome \<times> world))
      | Some d \<Rightarrow>
          (Normal (raises (answer 1875 w) = None),
           snd (clear_session_info ((tick 1875 w)\<lparr>driver_instance := None, is_logged_in := False\<rparr>)
                  :: (unit, unit) outcome \<times> world)))"
  by (auto simp: close_vahan_browser_def get_driver_instance_def set_driver_instance_def
      set_is_logged_in_def clear_session_info_eq prog_defs split: option.splits)

lemma reachable_flag_needs_handle: "reachable w \<Longrightarrow> flag_needs_handle w"
proof (induction rule: reachable.induct)
  case (loaded w)
  then show ?case by (simp add: flag_needs_handle_def)
next
  case (status w out w')
  from check_browser_status_globals [OF status.IH, where 'r = result] status.hyps(2)
  show ?case by simp
next
  case (start w res w')
  then show ?case by (auto intro: start_vahan_browser_globals)
next
  case (run w res w')
  then show ?case by (auto intro: run_automation_globals)
next
  case (close w done_ok w')
  then show ?case
    by (auto simp: close_vahan_browser_eq clear_session_info_eq flag_needs_handle_def
        split: option.splits if_splits)
qed



subsection \<open>The status check without a handle\<close>

lemma answer_fields:
  "answer L (w\<lparr>driver_instance := d\<rparr>) = answer L w"
  "answer L (w\<lparr>is_logged_in := b\<rparr>) = answer L w"
  "answer L (w\<lparr>session_file := f\<rparr>) = answer L w"
  "answer L (w\<lparr>in_frame := i\<rparr>) = answer L w"
  by (simp_all add: answer_def)

definition no_browser_found :: status_report where
  "no_browser_found =
     \<lparr>browser_open = False, logged_in = False,
      report_message = ''No browser instance found. Click 'Start' to open browser.'',
      current_url = None\<rparr>"

lemma status_probe_attaches:
  assumes "driver_instance w = None" and "port_open w" and "port_open (tick 88 w)"
  shows "asked (snd ((check_browser_status :: (status_report, 'r) prog) w)) 113 = Suc (asked w 113)"
    and "raises (answer 113 w) = None \<Longrightarrow> raises (answer 117 w) = None \<Longrightarrow>
         raises (answer 275 w) = None \<Longrightarrow>
           driver_instance (snd ((check_browser_status :: (status_report, 'r) prog) w)) = Some (Driver 113)
           \<and> (\<exists>st. fst ((check_browser_status :: (status_report, 'r) prog) w) = Normal st
                   \<and> browser_open st)"
  using assms
  by (simp_all add: check_browser_status_def is_chrome_debugging_available_eq answer_fields
      try_connect_eq save_session_info_eq clear_session_info_eq
      get_driver_instance_def set_driver_instance_def set_is_logged_in_def
      prog_defs split: option.splits)


lemma status_probe_without_handle:
  assumes "driver_instance w = None"
  shows "(\<forall>L \<in> creation_lines.
            asked (snd ((check_browser_status :: (status_report, 'r) prog) w)) L = asked w L)
       \<and> (\<not> port_open w \<longrightarrow>
            (check_browser_status :: (status_report, 'r) prog) w = (Normal no_browser_found, tick 88 w))
       \<and> (driver_instance (snd ((check_browser_status :: (status_report, 'r) prog) w)) \<noteq> None \<longrightarrow>
            port_open w
          \<and> driver_instance (snd ((check_browser_status :: (status_report, 'r) prog) w)) = Some (Driver 113)
          \<and> asked (snd ((check_browser_status :: (status_report, 'r) prog) w)) 113 = Suc (asked w 113))"
  using assms
  by (auto simp: check_browser_status_def is_chrome_debugging_available_eq no_browser_found_def
      try_connect_eq save_session_info_eq clear_session_info_eq
      get_driver_instance_def set_driver_instance_def set_is_logged_in_def
      creation_lines_def prog_defs split: option.splits if_splits)

section \<open>Claims\<close>

text \<open>
  C6. Round trip of the session record. Saving in a state with handle \<open>driver_instance w\<close>
  and flag \<open>is_logged_in w\<close> at clock reading \<open>t\<close> (line 35), with a file write that does
  not fail, and loading in any later world that still holds the written file at clock
  reading \<open>t'\<close> (line 51): when \<open>t' - t \<ge> 3600\<close> the load returns \<open>None\<close>, whatever was
  stored; when \<open>t' - t < 3600\<close> and the file can be read, the load returns the record
  with the same \<open>has_driver\<close> and \<open>is_logged_in\<close>.
\<close>

theorem session_record_round_trip:
  assumes wr: "raises (answer 37 w) = None"
    and sv: "save_session_info w = ((o1 :: (unit, 'r) outcome), w1)"
    and same: "session_file w2 = session_file w1"
  shows "(3600 \<le> stamp (answer 51 w2) - stamp (answer 35 w) \<longrightarrow>
            fst (load_session_info w2) = (Normal None :: (session_data option, 'q) outcome))
       \<and> (stamp (answer 51 w2) - stamp (answer 35 w) < 3600 \<longrightarrow>
            raises (answer 47 w2) = None \<longrightarrow>
            fst (load_session_info w2) =
              (Normal (Some \<lparr>sd_has_driver = (driver_instance w \<noteq> None),
                             sd_is_logged_in = is_logged_in w,
                             sd_timestamp = Some (stamp (answer 35 w))\<rparr>)
                 :: (session_data option, 'q) outcome))"
proof -
  have a37: "answer 37 (tick 35 w) = answer 37 w"
    by simp
  from wr sv have file1: "session_file w1 =
      Some \<lparr>sd_has_driver = (driver_instance w \<noteq> None), sd_is_logged_in = is_logged_in w,
            sd_timestamp = Some (stamp (answer 35 w))\<rparr>"
    by (auto simp: save_session_info_def try_except_def bind_def seq_def time_time_def call_def a37
        write_session_file_def get_driver_instance_def get_is_logged_in_def)
  show ?thesis
    using file1 same
    by (auto simp: load_session_info_def try_except_def bind_def seq_def time_time_def call_def ret_def
        get_timestamp_def read_session_file_def split: option.splits)
qed

definition clock_world :: "real \<Rightarrow> world" where
  "clock_world later =
     (fresh_world (\<lambda>L n. ok_reply\<lparr>stamp := (if L = 51 then later else 100)\<rparr>))
       \<lparr>driver_instance := Some (Driver 181), is_logged_in := True\<rparr>"

theorem session_record_round_trip_witness:
  "raises (answer 37 (clock_world 1900)) = None
   \<and> stamp (answer 51 ((snd (save_session_info (clock_world 1900) :: (unit, unit) outcome \<times> world))))
       - stamp (answer 35 (clock_world 1900)) < 3600
   \<and> fst (load_session_info (snd (save_session_info (clock_world 1900) :: (unit, unit) outcome \<times> world))) =
       (Normal (Some \<lparr>sd_has_driver = True, sd_is_logged_in = True, sd_timestamp = Some 100\<rparr>)
          :: (session_data option, unit) outcome)
   \<and> 3600 \<le> stamp (answer 51 ((snd (save_session_info (clock_world 3700) :: (unit, unit) outcome \<times> world))))
       - stamp (answer 35 (clock_world 3700))
   \<and> fst (load_session_info (snd (save_session_info (clock_world 3700) :: (unit, unit) outcome \<times> world))) =
       (Normal None :: (session_data option, unit) outcome)"
proof -
  have sv: "\<And>t. save_session_info (clock_world t) =
      ((Normal () :: (unit, unit) outcome),
       (tick 37 (tick 35 (clock_world t)))
         \<lparr>session_file := Some \<lparr>sd_has_driver = True, sd_is_logged_in = True,
                                sd_timestamp = Some 100\<rparr>\<rparr>)"
    by (simp add: save_session_info_def try_except_def bind_def seq_def time_time_def call_def
        write_session_file_def get_driver_instance_def get_is_logged_in_def
        clock_world_def fresh_world_def ok_reply_def answer_def)
  have a: "raises (answer 37 (clock_world 1900)) = None" "raises (answer 37 (clock_world 3700)) = None"
    by (simp_all add: clock_world_def fresh_world_def ok_reply_def answer_def)
  have r: "raises (answer 47 (snd (save_session_info (clock_world 1900) :: (unit, unit) outcome \<times> world))) = None"
    by (simp add: sv) (simp add: clock_world_def fresh_world_def ok_reply_def answer_def tick_def)
  have s: "\<And>t. stamp (answer 51 (snd (save_session_info (clock_world t) :: (unit, unit) outcome \<times> world))) = t"
    "\<And>t. stamp (answer 35 (clock_world t)) = 100"
    "\<And>t. driver_instance (clock_world t) = Some (Driver 181)"
    "\<And>t. is_logged_in (clock_world t)"
    by (simp_all add: sv) (simp_all add: clock_world_def fresh_world_def ok_reply_def answer_def tick_def)
  show ?thesis
    using session_record_round_trip [OF a(1) surjective_pairing refl, where 'q = unit and 'r = unit]
      session_record_round_trip [OF a(2) surjective_pairing refl, where 'q = unit and 'r = unit]
    by (simp add: s a r)
qed

text \<open>
  C5. The status probe creates nothing. Called without a handle, \<open>check_browser_status\<close>
  executes none of the lines that start a browser (\<open>creation_lines\<close>). When the probe
  of the debugging port (line 88) reports it closed, the report is "no browser found"
  (\<open>browser_open = False\<close>), the handle is still absent and line 88 is the only outside
  call made. When the port is open at the probe of the status check and at the probe
  of \<open>try_connect_to_existing_chrome\<close> that follows, the check attaches to the running
  browser: line 113 runs once, and when the attach (line 113), its verification
  (line 117) and the read of the URL (line 275) go through, the handle afterwards is
  the attached driver and the report says the browser is open. A handle that exists
  afterwards is always the attached one, and then the port was open.
\<close>

theorem status_probe_creates_nothing:
  assumes "driver_instance w = None"
  shows "(\<forall>L \<in> creation_lines.
            asked (snd ((check_browser_status :: (status_report, 'r) prog) w)) L = asked w L)
       \<and> (\<not> port_open w \<longrightarrow>
            (check_browser_status :: (status_report, 'r) prog) w = (Normal no_browser_found, tick 88 w))
       \<and> (port_open w \<and> port_open (tick 88 w) \<longrightarrow>
            asked (snd ((check_browser_status :: (status_report, 'r) prog) w)) 113 = Suc (asked w 113))
       \<and> (port_open w \<and> port_open (tick 88 w) \<and> raises (answer 113 w) = None
            \<and> raises (answer 117 w) = None \<and> raises (answer 275 w) = None \<longrightarrow>
            driver_instance (snd ((check_browser_status :: (status_report, 'r) prog) w)) = Some (Driver 113)
            \<and> (\<exists>st. fst ((check_browser_status :: (status_report, 'r) prog) w) = Normal st
                    \<and> browser_open st))
       \<and> (driver_instance (snd ((check_browser_status :: (status_report, 'r) prog) w)) \<noteq> None \<longrightarrow>
            port_open w
          \<and> driver_instance (snd ((check_browser_status :: (status_report, 'r) prog) w)) = Some (Driver 113)
          \<and> asked (snd ((check_browser_status :: (status_report, 'r) prog) w)) 113 = Suc (asked w 113))"
  using status_probe_without_handle [OF assms, where 'r = 'r]
    status_probe_attaches [OF assms, where 'r = 'r]
  by blast

definition closed_port_world :: world where
  "closed_port_world = fresh_world (\<lambda>L n. ok_reply\<lparr>count := 111\<rparr>)"

definition open_port_world :: world where
  "open_port_world = fresh_world (\<lambda>L n. if L = 275 then ok_reply\<lparr>str_val := home_url\<rparr> else ok_reply)"

theorem status_probe_creates_nothing_witness:
  "driver_instance closed_port_world = None
   \<and> \<not> port_open closed_port_world
   \<and> (check_browser_status :: (status_report, unit) prog) closed_port_world
       = (Normal no_browser_found, tick 88 closed_port_world)
   \<and> map (asked (snd ((check_browser_status :: (status_report, unit) prog) closed_port_world)))
         [181, 190, 198, 202, 212] = [0, 0, 0, 0, 0]
   \<and> driver_instance open_port_world = None
   \<and> port_open open_port_world
   \<and> driver_instance (snd ((check_browser_status :: (status_report, unit) prog) open_port_world))
       = Some (Driver 113)
   \<and> map (asked (snd ((check_browser_status :: (status_report, unit) prog) open_port_world)))
         [113, 181, 190, 198, 202, 212] = [1, 0, 0, 0, 0, 0]"
proof -
  have d: "driver_instance closed_port_world = None"
    by (simp add: closed_port_world_def fresh_world_def)
  have p: "\<not> port_open closed_port_world"
    by (simp add: port_open_def answer_def closed_port_world_def fresh_world_def ok_reply_def)
  have z: "asked closed_port_world = (\<lambda>L. 0)"
    by (simp add: closed_port_world_def fresh_world_def)
  have d2: "driver_instance open_port_world = None"
    and z2: "asked open_port_world = (\<lambda>L. 0)"
    and p2: "port_open open_port_world" "port_open (tick 88 open_port_world)"
    and r2: "raises (answer 113 open_port_world) = None" "raises (answer 117 open_port_world) = None"
      "raises (answer 275 open_port_world) = None"
    by (simp_all add: open_port_world_def port_open_def answer_def)
  note a = status_probe_creates_nothing [OF d, where 'r = unit]
  note b = status_probe_creates_nothing [OF d2, where 'r = unit]
  from a [THEN conjunct2, THEN conjunct1] p
  have a2: "(check_browser_status :: (status_report, unit) prog) closed_port_world
       = (Normal no_browser_found, tick 88 closed_port_world)" by (rule mp)
  from a [THEN conjunct1]
  have "\<forall>L \<in> {181, 190, 198, 202, 212}.
      asked (snd ((check_browser_status :: (status_report, unit) prog) closed_port_world)) L = 0"
    by (simp only: creation_lines_def z)
  then have a1: "map (asked (snd ((check_browser_status :: (status_report, unit) prog) closed_port_world)))
         [181, 190, 198, 202, 212] = [0, 0, 0, 0, 0]"
    by simp
  from b [THEN conjunct2, THEN conjunct2, THEN conjunct2, THEN conjunct1] p2 r2
  have b1: "driver_instance (snd ((check_browser_status :: (status_report, unit) prog) open_port_world))
       = Some (Driver 113)" by (elim impE) (intro conjI, assumption+, elim conjE)
  from b [THEN conjunct2, THEN conjunct2, THEN conjunct1] p2
  have b2: "asked (snd ((check_browser_status :: (status_report, unit) prog) open_port_world)) 113 = 1"
    by (simp add: z2)
  from b [THEN conjunct1]
  have "\<forall>L \<in> {181, 190, 198, 202, 212}.
      asked (snd ((check_browser_status :: (status_report, unit) prog) open_port_world)) L = 0"
    by (simp only: creation_lines_def z2)
  then have b3: "map (asked (snd ((check_browser_status :: (status_report, unit) prog) open_port_world)))
         [181, 190, 198, 202, 212] = [0, 0, 0, 0, 0]"
    by simp
  from d p a2 a1 d2 p2 b1 b2 b3 show ?thesis by simp
qed


definition is_failure :: "result \<Rightarrow> bool" where
  "is_failure r \<longleftrightarrow> \<not> success r \<and> status r \<noteq> ''no_approve_button''"

text \<open>
  C1. Bounded loop failure. When three runs of the sequencer in a row fail (each result
  neither a success nor the "no more work" signal), the loop goes on after the first
  and after the second, and stops after the third: the result is a failure that
  carries the count of items processed so far and the status code of the third, last,
  error; the world is the one the third run left. A success sets the counter of
  consecutive errors back to zero and counts one more item. \<open>run_automation\<close> enters
  the loop with both counters at zero once the status check says open and logged in.
\<close>

theorem loop_stops_after_three_failures:
  "(run_automation_internal 0 2 w = (Normal r1, w1) \<and> is_failure r1
      \<and> run_automation_internal 0 2 w1 = (Normal r2, w2) \<and> is_failure r2
      \<and> run_automation_internal 0 2 w2 = (Normal r3, w3) \<and> is_failure r3
    \<longrightarrow> automation_loop processed 0 w = automation_loop processed 1 w1
      \<and> automation_loop processed 1 w1 = automation_loop processed 2 w2
      \<and> automation_loop processed 2 w2 = Some (Normal (stopped_after_errors processed r3), w3)
      \<and> \<not> success (stopped_after_errors processed r3)
      \<and> status (stopped_after_errors processed r3) = status r3
      \<and> processed_count (stopped_after_errors processed r3) = Some processed)
   \<and> (run_automation_internal 0 2 w = (Normal r, w') \<and> success r
    \<longrightarrow> automation_loop processed error_count w = automation_loop (Suc processed) 0 w')
   \<and> ((check_browser_status :: (status_report, result) prog) w0 = (Normal st, w)
        \<and> browser_open st \<and> logged_in st
    \<longrightarrow> run_automation w0 = automation_loop 0 0 w)"
proof (intro conjI impI)
  assume a: "run_automation_internal 0 2 w = (Normal r1, w1) \<and> is_failure r1
      \<and> run_automation_internal 0 2 w1 = (Normal r2, w2) \<and> is_failure r2
      \<and> run_automation_internal 0 2 w2 = (Normal r3, w3) \<and> is_failure r3"
  show "automation_loop processed 0 w = automation_loop processed 1 w1"
    using a by (subst automation_loop.simps) (simp add: is_failure_def)
  show "automation_loop processed 1 w1 = automation_loop processed 2 w2"
    using a by (subst automation_loop.simps) (simp add: is_failure_def numeral_2_eq_2)
  show "automation_loop processed 2 w2 = Some (Normal (stopped_after_errors processed r3), w3)"
    using a by (subst automation_loop.simps) (simp add: is_failure_def)
  show "\<not> success (stopped_after_errors processed r3)"
    "status (stopped_after_errors processed r3) = status r3"
    "processed_count (stopped_after_errors processed r3) = Some processed"
    by (simp_all add: stopped_after_errors_def mk_result_def)
next
  assume "run_automation_internal 0 2 w = (Normal r, w') \<and> success r"
  then show "automation_loop processed error_count w = automation_loop (Suc processed) 0 w'"
    by (subst automation_loop.simps) simp
next
  assume "(check_browser_status :: (status_report, result) prog) w0 = (Normal st, w)
        \<and> browser_open st \<and> logged_in st"
  then show "run_automation w0 = automation_loop 0 0 w"
    by (simp add: run_automation_def)
qed

definition stuck_world :: world where
  "stuck_world =
     (fresh_world (\<lambda>L n. if L = 653 then ok_reply\<lparr>raises := Some (TimeoutException [])\<rparr>
                          else if L = 586 then ok_reply\<lparr>raises := Some (WebDriverException [])\<rparr>
                          else ok_reply))
       \<lparr>driver_instance := Some (Driver 181)\<rparr>"

theorem loop_stops_after_three_failures_witness:
  "is_failure button_not_found
   \<and> run_automation_internal 0 2 stuck_world = (Normal button_not_found, give_up stuck_world)
   \<and> run_automation_internal 0 2 (give_up stuck_world)
       = (Normal button_not_found, give_up (give_up stuck_world))
   \<and> run_automation_internal 0 2 (give_up (give_up stuck_world))
       = (Normal button_not_found, give_up (give_up (give_up stuck_world)))
   \<and> automation_loop 7 0 stuck_world
       = Some (Normal (stopped_after_errors 7 button_not_found),
               give_up (give_up (give_up stuck_world)))
   \<and> status (stopped_after_errors 7 button_not_found) = ''button_not_found''
   \<and> processed_count (stopped_after_errors 7 button_not_found) = Some 7"
proof -
  have s: "no_dashboard stuck_world"
    by (simp add: no_dashboard_def stuck_world_def fresh_world_def ok_reply_def)
  have f: "is_failure button_not_found"
    by (simp add: is_failure_def button_not_found_def mk_result_def)
  note r1 = no_dashboard_run [OF s]
  note r2 = no_dashboard_run [OF no_dashboard_give_up [OF s]]
  note r3 = no_dashboard_run [OF no_dashboard_give_up [OF no_dashboard_give_up [OF s]]]
  have st: "status button_not_found = ''button_not_found''"
    by (simp add: button_not_found_def mk_result_def)
  from loop_stops_after_three_failures [of stuck_world button_not_found "give_up stuck_world"
      button_not_found "give_up (give_up stuck_world)" button_not_found
      "give_up (give_up (give_up stuck_world))" 7]
    f r1 r2 r3 st
  show ?thesis by simp
qed

text \<open>
  C4. Exceptions at the component boundary. The claim fails on the code: step 1 catches
  only \<open>TimeoutException\<close> (line 664), and neither \<open>run_automation_internal\<close> nor
  \<open>run_automation\<close> has another handler around it, while every later step runs inside
  the outer \<open>try\<close> of \<open>execute_remaining_steps\<close> (lines 756-1780). In the world below
  the user is logged in, the Dashboard Pendency button is found (line 653) and its
  click (line 657) raises a WebDriverException: the exception leaves
  \<open>run_automation\<close>.
\<close>

definition intercepted_world :: world where
  "intercepted_world =
     (fresh_world (\<lambda>L n.
        if L = 275 then ok_reply\<lparr>str_val := home_url\<rparr>
        else if L = 586 then ok_reply\<lparr>raises := Some (WebDriverException ''no such element'')\<rparr>
        else if L = 657 then ok_reply\<lparr>raises := Some (WebDriverException ''element click intercepted'')\<rparr>
        else ok_reply))
       \<lparr>driver_instance := Some (Driver 181)\<rparr>"

theorem step1_click_exception_escapes:
  "map_option fst (run_automation intercepted_world)
     = Some (Raised (WebDriverException ''element click intercepted''))"
proof -
  let ?w1 = "snd (save_session_info ((tick 275 intercepted_world)\<lparr>is_logged_in := True\<rparr>) :: (unit, unit) outcome \<times> world)"
  have c: "(check_browser_status :: (status_report, result) prog) intercepted_world =
     (Normal \<lparr>browser_open = True, logged_in = True,
              report_message = ''Browser is open and user is logged in'',
              current_url = Some home_url\<rparr>, ?w1)"
    using check_browser_status_logged_in [of intercepted_world "Driver 181"]
    by (simp add: intercepted_world_def answer_def)
  have w1: "replies ?w1 = replies intercepted_world" "driver_instance ?w1 = Some (Driver 181)"
    "asked ?w1 586 = 0" "asked ?w1 597 = 0" "asked ?w1 653 = 0" "asked ?w1 657 = 0"
    by (simp_all add: save_session_info_eq intercepted_world_def)
  have rep: "\<And>n. raises (replies intercepted_world 586 n) \<noteq> None"
    "\<And>n. raises (replies intercepted_world 597 n) = None"
    "\<And>n. count (replies intercepted_world 597 n) = 0"
    "\<And>n. raises (replies intercepted_world 653 n) = None"
    "\<And>n. raises (replies intercepted_world 657 n) = Some (WebDriverException ''element click intercepted'')"
    by (simp_all add: intercepted_world_def)
  have h: "(check_for_back_to_home_page (Driver 181) :: (bool, result) prog) ?w1
      = (Normal False, tick 597 (tick 586 ?w1))"
    by (rule check_home_absent) (simp_all add: answer_def w1 rep)
  have s: "(step1_dashboard_pendency :: (unit, result) prog) (tick 597 (tick 586 ?w1))
      = (Raised (WebDriverException ''element click intercepted''), tick 657 (tick 653 (tick 597 (tick 586 ?w1))))"
    by (simp add: step1_dashboard_pendency_def prog_defs answer_def w1 rep)
  have r: "run_automation_internal 0 2 ?w1 =
      (Raised (WebDriverException ''element click intercepted''), tick 657 (tick 653 (tick 597 (tick 586 ?w1))))"
    by (subst run_automation_internal.simps)
       (simp add: run_automation_internal_with_def get_driver_instance_def w1 h s
          bind_def seq_def try_except_def fn_body_def raise_def)
  show ?thesis
    by (simp add: run_automation_def c) (subst automation_loop.simps, simp add: r)
qed

text \<open>
  C9. The session record after a login on a reused browser. The claim fails on the code:
  with the browser open on the login page, \<open>start_vahan_browser\<close> waits for the login
  and sets \<open>is_logged_in\<close> (line 393) without saving the session record, as the fresh
  start does (line 514). In the world below the status check finds the login page and
  saves \<open>is_logged_in = False\<close>; the user then logs in; the operation returns
  \<open>login_success\<close> with the flag set and the file still saying \<open>False\<close>.
\<close>

definition login_world :: world where
  "login_world =
     (fresh_world (\<lambda>L n.
        if L = 275 then ok_reply\<lparr>str_val := VAHAN_URL\<rparr>
        else if L = 323 then ok_reply\<lparr>str_val := VAHAN_URL\<rparr>
        else if L = 331 then ok_reply\<lparr>str_val := home_url\<rparr>
        else ok_reply))
       \<lparr>driver_instance := Some (Driver 181)\<rparr>"

theorem login_after_reuse_not_persisted:
  "map_option (\<lambda>(out, w). (out, is_logged_in w, session_file w)) (start_vahan_browser login_world)
     = Some (Normal (mk_result True ''Login acknowledged successfully!'' ''login_success''),
             True,
             Some \<lparr>sd_has_driver = True, sd_is_logged_in = False, sd_timestamp = Some 0\<rparr>)"
proof -
  let ?w1 = "snd (save_session_info ((tick 275 login_world)\<lparr>is_logged_in := False\<rparr>) :: (unit, unit) outcome \<times> world)"
  have c: "(check_browser_status :: (status_report, result) prog) login_world =
     (Normal \<lparr>browser_open = True, logged_in = False,
              report_message = ''Browser is open but user is not logged in'',
              current_url = Some VAHAN_URL\<rparr>, ?w1)"
    using check_browser_status_logged_out [of login_world "Driver 181"]
    by (simp add: login_world_def answer_def)
  have w1: "replies ?w1 = replies login_world" "driver_instance ?w1 = Some (Driver 181)"
    "asked ?w1 320 = 0" "asked ?w1 323 = 0" "asked ?w1 329 = 0" "asked ?w1 331 = 0"
    "session_file ?w1 = Some \<lparr>sd_has_driver = True, sd_is_logged_in = False, sd_timestamp = Some 0\<rparr>"
    by (simp_all add: save_session_info_eq login_world_def answer_def)
  have rep: "\<And>n. replies login_world 320 n = ok_reply" "\<And>n. replies login_world 329 n = ok_reply"
    "\<And>n. replies login_world 323 n = ok_reply\<lparr>str_val := VAHAN_URL\<rparr>"
    "\<And>n. replies login_world 331 n = ok_reply\<lparr>str_val := home_url\<rparr>"
    by (simp_all add: login_world_def)
  have l: "wait_for_login (Some (Driver 181)) 300 ?w1 =
      Some (True, tick 331 (tick 329 (tick 323 (tick 320 ?w1))))"
    by (simp add: wait_for_login_def call_def answer_def w1 rep)
       (subst login_poll.simps, simp add: call_def answer_def w1 rep)
  show ?thesis
    by (simp add: start_vahan_browser_def c w1 l)
qed

text \<open>
  C8. The Login Gate. With the start time read at line 320 and the initial URL at line
  323: \<open>wait_for_login\<close> returns \<open>True\<close> exactly when the initial read succeeds and
  some tick that the loop reaches is within the timeout and sees the login (the URL
  differs from the initial one and has no "login" in it, or a post-login element is
  there). It returns \<open>False\<close> at once when a read of the location raises: the initial
  one, or the one of a tick, and then without looking for post-login elements in that
  tick and without a further tick. It returns \<open>False\<close> when the clock of a tick it
  reaches is past the timeout. (The handler of lines 349-356 returns \<open>False\<close> for every
  exception, a lost connection or not.)
\<close>

theorem login_gate_outcome:
  "(let start_time = stamp (answer 320 w); login_url = str_val (answer 323 w) in
     ((\<exists>w'. wait_for_login (Some h) timeout w = Some (True, w')) \<longleftrightarrow>
        raises (answer 323 w) = None
        \<and> (\<exists>i. tick_reached start_time timeout login_url w i
               \<and> tick_in_time start_time timeout w i \<and> tick_sees_login login_url w i))
     \<and> (raises (answer 323 w) \<noteq> None \<longrightarrow>
          wait_for_login (Some h) timeout w = Some (False, tick 323 (tick 320 w)))
     \<and> (raises (answer 323 w) = None \<and> tick_reached start_time timeout login_url w i
          \<and> tick_in_time start_time timeout w i \<and> tick_read_fails w i \<longrightarrow>
          wait_for_login (Some h) timeout w =
            Some (False, tick 331 (tick 329 ((quiet_step ^^ i) (tick 323 (tick 320 w))))))
     \<and> (raises (answer 323 w) = None \<and> tick_reached start_time timeout login_url w i
          \<and> \<not> tick_in_time start_time timeout w i \<longrightarrow>
          wait_for_login (Some h) timeout w =
            Some (False, tick 329 ((quiet_step ^^ i) (tick 323 (tick 320 w))))))"
proof -
  let ?st = "stamp (answer 320 w)" and ?u = "str_val (answer 323 w)"
  let ?w1 = "tick 323 (tick 320 w)"
  have a: "(\<exists>w'. wait_for_login (Some h) timeout w = Some (True, w')) \<longleftrightarrow>
        raises (answer 323 w) = None
        \<and> (\<exists>i. tick_reached ?st timeout ?u w i
               \<and> tick_in_time ?st timeout w i \<and> tick_sees_login ?u w i)"
    using login_poll_True_iff [of ?st timeout ?u ?w1]
    by (simp add: wait_for_login_unfold entry_shift)
  have b: "raises (answer 323 w) \<noteq> None \<longrightarrow>
          wait_for_login (Some h) timeout w = Some (False, ?w1)"
    by (simp add: wait_for_login_unfold)
  have c: "raises (answer 323 w) = None \<and> tick_reached ?st timeout ?u w i
          \<and> tick_in_time ?st timeout w i \<and> tick_read_fails w i \<longrightarrow>
          wait_for_login (Some h) timeout w =
            Some (False, tick 331 (tick 329 ((quiet_step ^^ i) ?w1)))"
    using login_poll_ends(2) [of ?st timeout ?u ?w1 i]
    by (simp add: wait_for_login_unfold entry_shift)
  have d: "raises (answer 323 w) = None \<and> tick_reached ?st timeout ?u w i
          \<and> \<not> tick_in_time ?st timeout w i \<longrightarrow>
          wait_for_login (Some h) timeout w = Some (False, tick 329 ((quiet_step ^^ i) ?w1))"
    using login_poll_ends(1) [of ?st timeout ?u ?w1 i]
    by (simp add: wait_for_login_unfold entry_shift)
  from a b c d show ?thesis by (simp add: Let_def)
qed

definition closed_browser_world :: world where
  "closed_browser_world =
     (fresh_world (\<lambda>L n.
        if L = 323 then ok_reply\<lparr>str_val := VAHAN_URL\<rparr>
        else if L = 331 then
          ok_reply\<lparr>raises := Some (WebDriverException ''no such window: target window already closed'')\<rparr>
        else ok_reply))
       \<lparr>driver_instance := Some (Driver 181)\<rparr>"

theorem login_gate_outcome_witness:
  "raises (answer 323 login_world) = None
   \<and> tick_reached 0 300 VAHAN_URL login_world 0
   \<and> tick_in_time 0 300 login_world 0
   \<and> tick_sees_login VAHAN_URL login_world 0
   \<and> (\<exists>w'. wait_for_login (Some (Driver 181)) 300 login_world = Some (True, w'))
   \<and> tick_read_fails closed_browser_world 0
   \<and> wait_for_login (Some (Driver 181)) 300 closed_browser_world =
       Some (False, tick 331 (tick 329 (tick 323 (tick 320 closed_browser_world))))"
proof -
  have l: "raises (answer 323 login_world) = None" "stamp (answer 320 login_world) = 0"
    "str_val (answer 323 login_world) = VAHAN_URL"
    "tick_reached 0 300 VAHAN_URL login_world 0" "tick_in_time 0 300 login_world 0"
    "tick_sees_login VAHAN_URL login_world 0"
    by (simp_all add: login_world_def answer_def tick_reached_def tick_in_time_def
        tick_sees_login_def)
  have c: "raises (answer 323 closed_browser_world) = None"
    "stamp (answer 320 closed_browser_world) = 0"
    "str_val (answer 323 closed_browser_world) = VAHAN_URL"
    "tick_reached 0 300 VAHAN_URL closed_browser_world 0"
    "tick_in_time 0 300 closed_browser_world 0"
    "tick_read_fails closed_browser_world 0"
    by (simp_all add: closed_browser_world_def answer_def tick_reached_def tick_in_time_def
        tick_read_fails_def)
  from login_gate_outcome [of login_world "Driver 181" 300 0]
    login_gate_outcome [of closed_browser_world "Driver 181" 300 0] l c
  show ?thesis by (simp add: Let_def) blast
qed

text \<open>
  C7. The context after the checkbox sweep. Provided the two calls
  \<open>switch_to.default_content()\<close> of the handlers (lines 1292 and 1323) go through
  whenever they are made (\<open>restores_work\<close>; the handlers swallow their failure): step
  12, started in any context and with the retry of the source, ends at the top-level
  document however it ends (normal completion, timeout with or without a retry, any other
  exception); and the sequencer, started at the top-level document, ends there.
\<close>

theorem frame_context_restored:
  assumes "restores_work w"
  shows "\<not> in_frame (snd (step12_approved_checkboxes
                            (run_automation_internal (Suc retry_count) max_retries)
                            d retry_count max_retries w))
       \<and> (\<not> in_frame w \<longrightarrow> \<not> in_frame (snd (run_automation_internal retry_count max_retries w)))"
proof
  have "preserves (top_level (replies w)) (run_automation_internal (Suc retry_count) max_retries)"
    by (rule sequencer_keeps_top [OF assms refl])
  then have "triple (same_browser (replies w))
      (step12_approved_checkboxes (run_automation_internal (Suc retry_count) max_retries)
         d retry_count max_retries)
      (top_level (replies w)) (top_level (replies w)) (top_level (replies w))"
    by (intro step12_ends_top_level [OF assms refl])
  then have "top_level (replies w)
      (snd (step12_approved_checkboxes (run_automation_internal (Suc retry_count) max_retries)
              d retry_count max_retries w))"
    by (simp add: triple_def after_same same_browser_def)
  then show "\<not> in_frame (snd (step12_approved_checkboxes
                            (run_automation_internal (Suc retry_count) max_retries)
                            d retry_count max_retries w))"
    by (simp add: top_level_def)
next
  show "\<not> in_frame w \<longrightarrow> \<not> in_frame (snd (run_automation_internal retry_count max_retries w))"
  proof
    assume "\<not> in_frame w"
    then have "top_level (replies w) w" by (simp add: top_level_def)
    with sequencer_keeps_top [OF assms refl]
    have "top_level (replies w) (snd (run_automation_internal retry_count max_retries w))"
      by (rule preservesD)
    then show "\<not> in_frame (snd (run_automation_internal retry_count max_retries w))"
      by (simp add: top_level_def)
  qed
qed

definition checkbox_timeout_world :: world where
  "checkbox_timeout_world =
     (fresh_world (\<lambda>L n. if L = 1204 then ok_reply\<lparr>raises := Some (TimeoutException [])\<rparr>
                          else ok_reply))
       \<lparr>driver_instance := Some (Driver 181)\<rparr>"

theorem frame_context_restored_witness:
  "restores_work checkbox_timeout_world
   \<and> \<not> in_frame checkbox_timeout_world
   \<and> \<not> in_frame (snd (step12_approved_checkboxes (run_automation_internal 1 2)
                          (Driver 181) 0 2 checkbox_timeout_world))
   \<and> \<not> in_frame (snd (run_automation_internal 0 2 checkbox_timeout_world))"
proof -
  have r: "restores_work checkbox_timeout_world"
    by (simp add: restores_work_def checkbox_timeout_world_def)
  have t: "\<not> in_frame checkbox_timeout_world"
    by (simp add: checkbox_timeout_world_def)
  from frame_context_restored [OF r, of 0 2 "Driver 181"] r t show ?thesis by simp
qed

text \<open>
  C2. Terminal detection. When the gate step finds the table and no approve button in
  it, it returns \<open>no_approve_button\<close> at once (no further outside call). So does the
  sequencer whose invocation gets to the gate (the look for the recovery affordance and
  steps 1 to 4 complete). On that result the loop returns \<open>completed\<close> with the count
  of items processed before, unchanged.
\<close>

theorem terminal_detection:
  "(gate_finds_nothing wg \<longrightarrow>
      step5_first_approve wg = (Returned no_approve_button, tick 866 (tick 856 wg)))
   \<and> (driver_instance w = Some d \<and> to_the_gate d w = (Normal (), wg) \<and> gate_finds_nothing wg \<longrightarrow>
        run_automation_internal retry_count max_retries w =
          (Normal no_approve_button, tick 866 (tick 856 wg)))
   \<and> (run_automation_internal 0 2 w = (Normal r, w') \<and> \<not> success r
        \<and> status r = ''no_approve_button'' \<longrightarrow>
        automation_loop processed error_count w = Some (Normal (all_processed processed), w')
        \<and> success (all_processed processed)
        \<and> status (all_processed processed) = ''completed''
        \<and> processed_count (all_processed processed) = Some processed)"
proof (intro conjI impI)
  assume "gate_finds_nothing wg"
  then show "step5_first_approve wg = (Returned no_approve_button, tick 866 (tick 856 wg))"
    by (rule gate_step)
next
  assume "driver_instance w = Some d \<and> to_the_gate d w = (Normal (), wg) \<and> gate_finds_nothing wg"
  then show "run_automation_internal retry_count max_retries w =
          (Normal no_approve_button, tick 866 (tick 856 wg))"
    by (simp add: sequencer_at_the_gate)
next
  assume a: "run_automation_internal 0 2 w = (Normal r, w') \<and> \<not> success r
        \<and> status r = ''no_approve_button''"
  then show "automation_loop processed error_count w = Some (Normal (all_processed processed), w')"
    by (subst automation_loop.simps) simp
  show "success (all_processed processed)" "status (all_processed processed) = ''completed''"
    "processed_count (all_processed processed) = Some processed"
    by (simp_all add: all_processed_def mk_result_def)
qed

theorem terminal_detection_witness:
  "driver_instance empty_table_world = Some (Driver 181)
   \<and> to_the_gate (Driver 181) empty_table_world =
       (Normal (), snd (to_the_gate (Driver 181) empty_table_world))
   \<and> gate_finds_nothing (snd (to_the_gate (Driver 181) empty_table_world))
   \<and> fst (run_automation_internal 0 2 empty_table_world) = Normal no_approve_button
   \<and> map_option fst (automation_loop 5 0 empty_table_world) = Some (Normal (all_processed 5))"
proof -
  let ?wg = "snd (to_the_gate (Driver 181) empty_table_world)"
  have d: "driver_instance empty_table_world = Some (Driver 181)"
    by (simp add: empty_table_world_def)
  have g: "to_the_gate (Driver 181) empty_table_world = (Normal (), ?wg)"
    using to_the_gate_empty_table by (simp add: prod_eq_iff)
  have "same_browser (replies empty_table_world) ?wg"
    by (rule preservesD [OF preserves_to_the_gate [OF same_browser_stable(1)]])
       (simp add: same_browser_def)
  then have n: "gate_finds_nothing ?wg"
    by (simp add: gate_finds_nothing_def answer_def same_browser_def)
       (simp add: empty_table_world_def)
  have f: "\<not> success no_approve_button" "status no_approve_button = ''no_approve_button''"
    by (simp_all add: no_approve_button_def mk_result_def)
  from terminal_detection [of ?wg empty_table_world "Driver 181" 0 2 no_approve_button
      "tick 866 (tick 856 ?wg)" 5 0] d g n f
  show ?thesis by simp
qed

definition home_link :: reply where
  "home_link = ok_reply\<lparr>str_val := ''Back to Home-Page''\<rparr>"

lemma home_link_simps:
  "raises home_link = None" "contains ''back to home'' (lower (str_val home_link))"
proof -
  have "lower ''Back to Home-Page'' = ''back to home-page''"
    by code_simp
  then show "contains ''back to home'' (lower (str_val home_link))"
    by (simp add: home_link_def)
qed (simp add: home_link_def)

text \<open>A browser whose Dashboard Pendency button never shows, and that shows the
  affordance to the second look only.\<close>

definition recover_once_world :: world where
  "recover_once_world =
     (fresh_world (\<lambda>L n. if L = 653 then ok_reply\<lparr>raises := Some (TimeoutException [])\<rparr>
                          else if L = 586 \<and> n \<noteq> 1 then ok_reply\<lparr>raises := Some (WebDriverException [])\<rparr>
                          else if L = 587 then home_link
                          else ok_reply))
       \<lparr>driver_instance := Some (Driver 181)\<rparr>"

text \<open>A browser that shows the affordance at every look and never the 'View Detail'
  link of step 4 (line 840).\<close>

definition view_detail_timeout_world :: world where
  "view_detail_timeout_world =
     (fresh_world (\<lambda>L n. if L = 840 then ok_reply\<lparr>raises := Some (TimeoutException [])\<rparr>
                          else if L = 587 then home_link
                          else ok_reply))
       \<lparr>driver_instance := Some (Driver 181)\<rparr>"

text \<open>
  C3. Bounded recovery. The sequencer answers a timeout with a look for the recovery
  affordance at two places only: step 1 (lines 664-680) and step 12 (lines 1287-1317).
  When every invocation times out at such a place and the looks that answer the
  timeouts find the affordance \<open>k\<close> times, then no more, the step sequence is started
  \<open>1 + min k max_retries\<close> times in all (line 653, the first line of step 1, runs that
  often: \<open>min k max_retries\<close> restarts), and the sequencer returns the fatal result of
  the place. A timeout at another step, such as step 4, is not answered by a look for
  the affordance: the sequencer returns that step's failure without a restart, also
  when the affordance is on the page.
\<close>

theorem bounded_recovery:
  assumes "driver_instance w = Some d"
    and "timeouts_with_affordance site d k max_retries w"
  shows "fst (run_automation_internal 0 max_retries w) = Normal (fatal_result site)
       \<and> asked (snd (run_automation_internal 0 max_retries w)) 653
           = asked w 653 + 1 + min k max_retries"
  using recovery_budget_spent [OF assms, of 0 max_retries] by simp


lemma recover_once_chain:
  "timeouts_with_affordance AtStep1 (Driver 181) 1 2 recover_once_world"
proof -
  let ?W = recover_once_world
  have rep: "\<And>n. raises (replies ?W 653 n) = Some (TimeoutException [])"
    "\<And>n. n \<noteq> 1 \<Longrightarrow> raises (replies ?W 586 n) \<noteq> None"
    "raises (replies ?W 586 (Suc 0)) = None"
    "\<And>n. replies ?W 587 n = home_link"
    "\<And>n. replies ?W 589 n = ok_reply"
    "\<And>n. replies ?W 597 n = ok_reply"
    "asked ?W = (\<lambda>L. 0)"
    by (simp_all add: recover_once_world_def)
  let ?d = "Driver 181"
  let ?v0 = "tick 653 (tick 597 (tick 586 ?W))"
  let ?w1 = "tick 589 (tick 587 (tick 586 ?v0))"
  let ?v1 = "tick 653 (tick 597 (tick 586 ?w1))"
  let ?w2 = "tick 597 (tick 586 ?v1)"
  have c0: "(check_for_back_to_home_page ?d :: (bool, result) prog) ?W
      = (Normal False, tick 597 (tick 586 ?W))"
    by (rule check_home_absent) (simp_all add: answer_def rep)
  have s0: "(step1_dashboard_pendency :: (unit, result) prog) (tick 597 (tick 586 ?W))
      = (Raised (TimeoutException []), ?v0)"
    by (simp add: step1_dashboard_pendency_def answer_def prog_defs rep)
  have p0: "recovery_point AtStep1 ?d ?W = Some ?v0"
    by (simp add: seq_def bind_def c0 s0)
  have k0: "(check_for_back_to_home_page ?d :: (bool, result) prog) ?v0 = (Normal True, ?w1)"
    by (rule check_home_by_id) (simp_all add: answer_def rep home_link_simps)
  have c1: "(check_for_back_to_home_page ?d :: (bool, result) prog) ?w1
      = (Normal False, tick 597 (tick 586 ?w1))"
    by (rule check_home_absent) (simp_all add: answer_def rep)
  have s1: "(step1_dashboard_pendency :: (unit, result) prog) (tick 597 (tick 586 ?w1))
      = (Raised (TimeoutException []), ?v1)"
    by (simp add: step1_dashboard_pendency_def answer_def prog_defs rep)
  have p1: "recovery_point AtStep1 ?d ?w1 = Some ?v1"
    by (simp add: seq_def bind_def c1 s1)
  have k1: "(check_for_back_to_home_page ?d :: (bool, result) prog) ?v1 = (Normal False, ?w2)"
    by (rule check_home_absent) (simp_all add: answer_def rep)
  show ?thesis
    by (simp add: numeral_2_eq_2 p0 k0 p1 k1 del: recovery_point.simps)
qed

theorem bounded_recovery_witness:
  "driver_instance recover_once_world = Some (Driver 181)
   \<and> timeouts_with_affordance AtStep1 (Driver 181) 1 2 recover_once_world
   \<and> fst (run_automation_internal 0 2 recover_once_world) = Normal button_not_found
   \<and> asked (snd (run_automation_internal 0 2 recover_once_world)) 653 = 2"
proof -
  have d: "driver_instance recover_once_world = Some (Driver 181)"
    and a: "asked recover_once_world 653 = 0"
    by (simp_all add: recover_once_world_def)
  from bounded_recovery [OF d recover_once_chain] d a recover_once_chain
  show ?thesis by simp
qed

theorem timeout_at_step4_not_recovered:
  "fst (run_automation_internal 0 2 view_detail_timeout_world)
     = Normal (mk_result False
         ''Dealer Registration element not found. The page may not have loaded correctly.''
         ''element_not_found'')
   \<and> asked (snd (run_automation_internal 0 2 view_detail_timeout_world)) 653 = 1
   \<and> fst ((check_for_back_to_home_page (Driver 181) :: (bool, result) prog)
            (snd (run_automation_internal 0 2 view_detail_timeout_world))) = Normal True"
proof -
  let ?W = view_detail_timeout_world
  let ?d = "Driver 181"
  have rep: "\<And>n. raises (replies ?W 840 n) = Some (TimeoutException [])"
    "\<And>n. replies ?W 587 n = home_link"
    "\<And>L n. L \<noteq> 840 \<Longrightarrow> L \<noteq> 587 \<Longrightarrow> replies ?W L n = ok_reply"
    "asked ?W = (\<lambda>L. 0)" "driver_instance ?W = Some ?d"
    by (simp_all add: view_detail_timeout_world_def)
  let ?w1 = "tick 589 (tick 587 (tick 586 ?W))"
  let ?w2 = "tick 657 (tick 653 ?w1)"
  let ?w3 = "tick 695 ?w2"
  let ?w4 = "tick 781 (tick 774 (tick 765 (tick 758 ?w3)))"
  let ?w5 = "tick 819 (tick 812 (tick 803 ?w4))"
  let ?w6 = "tick 840 ?w5"
  have c0: "(check_for_back_to_home_page ?d :: (bool, result) prog) ?W = (Normal True, ?w1)"
    by (rule check_home_by_id) (simp_all add: answer_def rep home_link_simps)
  have s1: "(step1_dashboard_pendency :: (unit, result) prog) ?w1 = (Normal (), ?w2)"
    by (simp add: step1_dashboard_pendency_def answer_def prog_defs rep)
  have s15: "(step1_5_alert_popup :: (unit, result) prog) ?w2 = (Normal (), ?w3)"
    by (simp add: step1_5_alert_popup_def answer_def prog_defs rep)
  have s2: "(step2_dealer_registration :: (unit, result) prog) ?w3 = (Normal (), ?w4)"
    by (simp add: step2_dealer_registration_def answer_def prog_defs rep)
  have s3: "(step3_new_registration :: (unit, result) prog) ?w4 = (Normal (), ?w5)"
    by (simp add: step3_new_registration_def answer_def prog_defs rep)
  have s4: "(step4_view_detail :: (unit, result) prog) ?w5
      = (Raised (TimeoutException []), ?w6)"
    by (simp add: step4_view_detail_def answer_def prog_defs rep)
  have run: "run_automation_internal 0 2 ?W
      = (Normal (mk_result False
           ''Dealer Registration element not found. The page may not have loaded correctly.''
           ''element_not_found''), ?w6)"
    by (subst run_automation_internal.simps)
       (simp add: run_automation_internal_with_def execute_remaining_steps_with_def
          get_driver_instance_def bind_def seq_def fn_body_def return_value_def ret_def
          block.simps try_except_def [of step1_dashboard_pendency]
          try_except_def [of "seq a m" for a m] try_except_def [of "bind a f" for a f]
          rep c0 s1 s15 s2 s3 s4)
  have c1: "(check_for_back_to_home_page ?d :: (bool, result) prog) ?w6
      = (Normal True, tick 589 (tick 587 (tick 586 ?w6)))"
    by (rule check_home_by_id) (simp_all add: answer_def rep home_link_simps)
  show ?thesis by (simp add: run c1 rep)
qed

text \<open>
  C10. Closing the session. In every state the engine reaches from the load of the
  module through its four operations, \<open>close_vahan_browser\<close> ends with the handle
  cleared and the flag off, whether \<open>quit\<close> (line 1875) raises or not, and it raises
  nothing itself. The value is \<open>True\<close> without a handle, and \<open>False\<close> exactly when there
  is a handle and its \<open>quit\<close> raises. (Without a handle the flag is not written: it is
  off because no reachable state has the flag on and no handle.) The session record is
  not always deleted: it is gone when there was none or \<open>os.remove\<close> (line 63) goes
  through; when \<open>os.remove\<close> raises, \<open>clear_session_info\<close> swallows the exception and
  the record stays as it was, as in \<open>locked_file_world\<close> below.
\<close>

theorem close_clears_the_session:
  assumes "reachable w"
  shows "driver_instance (snd ((close_vahan_browser :: (bool, 'r) prog) w)) = None
       \<and> \<not> is_logged_in (snd ((close_vahan_browser :: (bool, 'r) prog) w))
       \<and> (session_file w = None \<or> raises (answer 63 w) = None \<longrightarrow>
            session_file (snd ((close_vahan_browser :: (bool, 'r) prog) w)) = None)
       \<and> (session_file w \<noteq> None \<and> raises (answer 63 w) \<noteq> None \<longrightarrow>
            session_file (snd ((close_vahan_browser :: (bool, 'r) prog) w)) = session_file w)
       \<and> (driver_instance w = None \<longrightarrow>
            fst ((close_vahan_browser :: (bool, 'r) prog) w) = Normal True)
       \<and> (fst ((close_vahan_browser :: (bool, 'r) prog) w) = Normal False \<longleftrightarrow>
            driver_instance w \<noteq> None \<and> raises (answer 1875 w) \<noteq> None)
       \<and> (\<exists>b. fst ((close_vahan_browser :: (bool, 'r) prog) w) = Normal b)"
proof -
  from assms have "flag_needs_handle w" by (rule reachable_flag_needs_handle)
  then show ?thesis
    by (cases "driver_instance w")
       (auto simp: close_vahan_browser_eq clear_session_info_eq flag_needs_handle_def answer_def
          split: option.splits)
qed


text \<open>A Chrome with the debugging port open, showing the home page, whose \<open>quit\<close> fails;
  the status check has attached to it and saved the session record.\<close>

definition attached_world :: world where
  "attached_world =
     snd ((check_browser_status :: (status_report, result) prog)
            (fresh_world (\<lambda>L n. if L = 1875 then ok_reply\<lparr>raises := Some (WebDriverException [])\<rparr>
                                 else if L = 275 then ok_reply\<lparr>str_val := home_url\<rparr>
                                 else ok_reply)))"

theorem close_clears_the_session_witness:
  "reachable attached_world
   \<and> driver_instance attached_world = Some (Driver 113)
   \<and> is_logged_in attached_world
   \<and> session_file attached_world \<noteq> None
   \<and> fst ((close_vahan_browser :: (bool, result) prog) attached_world) = Normal False
   \<and> driver_instance (snd ((close_vahan_browser :: (bool, result) prog) attached_world)) = None
   \<and> \<not> is_logged_in (snd ((close_vahan_browser :: (bool, result) prog) attached_world))
   \<and> session_file (snd ((close_vahan_browser :: (bool, result) prog) attached_world)) = None"
proof -
  let ?rs = "\<lambda>L n. if L = 1875 then ok_reply\<lparr>raises := Some (WebDriverException [])\<rparr>
                    else if L = (275 :: nat) then ok_reply\<lparr>str_val := home_url\<rparr>
                    else ok_reply"
  have r: "reachable attached_world"
    unfolding attached_world_def
    by (rule reachable.status [OF reachable.loaded]) (simp_all add: prod_eq_iff)
  have p: "port_open (fresh_world ?rs)" "port_open (tick 88 (fresh_world ?rs))"
    by (simp_all add: port_open_def answer_def)
  have w1: "driver_instance attached_world = Some (Driver 113)" "is_logged_in attached_world"
    "session_file attached_world \<noteq> None" "replies attached_world = ?rs"
    "asked attached_world 63 = 0" "asked attached_world 1875 = 0"
    unfolding attached_world_def
    by (simp_all add: check_browser_status_def is_chrome_debugging_available_eq try_connect_eq
        save_session_info_eq p get_driver_instance_def set_driver_instance_def
        set_is_logged_in_def prog_defs answer_def)
  from close_clears_the_session [OF r, where 'r = result] r w1 show ?thesis
    by (simp add: answer_def)
qed

text \<open>A Chrome with the debugging port open, showing the home page, on a machine where
  the session file cannot be removed (\<open>os.remove\<close> raises); the status check has attached
  to it and saved the session record.\<close>

definition locked_file_world :: world where
  "locked_file_world =
     snd ((check_browser_status :: (status_report, result) prog)
            (fresh_world (\<lambda>L n. if L = 63 then ok_reply\<lparr>raises := Some (PyException ''PermissionError'')\<rparr>
                                 else if L = 275 then ok_reply\<lparr>str_val := home_url\<rparr>
                                 else ok_reply)))"

theorem record_stays_when_remove_fails:
  "reachable locked_file_world
   \<and> driver_instance locked_file_world = Some (Driver 113)
   \<and> session_file locked_file_world \<noteq> None
   \<and> fst ((close_vahan_browser :: (bool, result) prog) locked_file_world) = Normal True
   \<and> driver_instance (snd ((close_vahan_browser :: (bool, result) prog) locked_file_world)) = None
   \<and> session_file (snd ((close_vahan_browser :: (bool, result) prog) locked_file_world))
       = session_file locked_file_world"
proof -
  let ?rs = "\<lambda>L n. if L = 63 then ok_reply\<lparr>raises := Some (PyException ''PermissionError'')\<rparr>
                    else if L = (275 :: nat) then ok_reply\<lparr>str_val := home_url\<rparr>
                    else ok_reply"
  have r: "reachable locked_file_world"
    unfolding locked_file_world_def
    by (rule reachable.status [OF reachable.loaded]) (simp_all add: prod_eq_iff)
  have p: "port_open (fresh_world ?rs)" "port_open (tick 88 (fresh_world ?rs))"
    by (simp_all add: port_open_def answer_def)
  have w1: "driver_instance locked_file_world = Some (Driver 113)"
    "session_file locked_file_world \<noteq> None" "replies locked_file_world = ?rs"
    "asked locked_file_world 63 = 0" "asked locked_file_world 1875 = 0"
    unfolding locked_file_world_def
    by (simp_all add: check_browser_status_def is_chrome_debugging_available_eq try_connect_eq
        save_session_info_eq p get_driver_instance_def set_driver_instance_def
        set_is_logged_in_def prog_defs answer_def)
  from r w1 show ?thesis
    by (auto simp: close_vahan_browser_eq clear_session_info_eq answer_def)
qed

end
